theory Spec2Isabelle
  imports Main
begin

section \<open>Python values and records\<close>

text \<open>
  A record of the pipeline is a Python \<^verbatim>\<open>dict\<close> from field names to primitive values.
  The values that reach the reconciliation code are \<^verbatim>\<open>None\<close>, strings and integers
  (rate fields are opaque payload for every function modelled here and are carried as
  integers).  A dict is a finite map; \<^verbatim>\<open>d.get(k)\<close> yields \<^verbatim>\<open>None\<close> for a missing key.
\<close>

datatype pyval = VNone | VStr string | VInt int

type_synonym pydict = "string \<rightharpoonup> pyval"

definition get :: "pydict \<Rightarrow> string \<Rightarrow> pyval" where
  "get d k = (case d k of None \<Rightarrow> VNone | Some v \<Rightarrow> v)"

text \<open>Python truth value: \<^verbatim>\<open>None\<close>, \<^verbatim>\<open>''\<close> and \<^verbatim>\<open>0\<close> are falsy.\<close>

fun truthy :: "pyval \<Rightarrow> bool" where
  "truthy VNone = False"
| "truthy (VStr s) = (s \<noteq> [])"
| "truthy (VInt i) = (i \<noteq> 0)"

text \<open>\<^verbatim>\<open>a or b\<close>\<close>

definition py_or :: "pyval \<Rightarrow> pyval \<Rightarrow> pyval" where
  "py_or a b = (if truthy a then a else b)"

text \<open>
  \<^verbatim>\<open>str.strip()\<close>: removes leading and trailing whitespace.  Characters are bytes here,
  so the whitespace set is the ASCII part of Python's (tab, LF, VT, FF, CR, the four
  separators 0x1C..0x1F and space).
\<close>

definition is_space :: "char \<Rightarrow> bool" where
  "is_space c = ((of_char c :: nat) \<in> {9, 10, 11, 12, 13, 28, 29, 30, 31, 32})"

definition py_strip :: "string \<Rightarrow> string" where
  "py_strip s = rev (dropWhile is_space (rev (dropWhile is_space s)))"

text \<open>\<^verbatim>\<open>str(v)\<close> for the three kinds of value.\<close>

fun digits :: "nat \<Rightarrow> string" where
  "digits n = (if n < 10 then [''0123456789'' ! n]
               else digits (n div 10) @ [''0123456789'' ! (n mod 10)])"

declare digits.simps [simp del]

fun py_str :: "pyval \<Rightarrow> string" where
  "py_str VNone = ''None''"
| "py_str (VStr s) = s"
| "py_str (VInt i) = (if i < 0 then CHR ''-'' # digits (nat (- i)) else digits (nat i))"

section \<open>Record Preparer\<close>

text \<open>
  \<^verbatim>\<open>prepare_record_for_insertion\<close> (database_utils.py).  The Python function mutates the
  dict it is given and returns it; the model returns the updated dict, and \<open>None\<close> where
  the source returns \<^verbatim>\<open>None\<close>.  \<open>existing_release_date\<close> is \<open>VNone\<close> for Python's
  \<^verbatim>\<open>None\<close>.
\<close>

definition code_rejected :: "pyval \<Rightarrow> bool" where
  "code_rejected code =
     (\<not> truthy code \<or> (case code of VStr s \<Rightarrow> py_strip s = [] | _ \<Rightarrow> False))"

definition prepare_record_for_insertion ::
  "pydict \<Rightarrow> string \<Rightarrow> pyval \<Rightarrow> bool \<Rightarrow> pydict option" where
  "prepare_record_for_insertion record source_name existing_release_date has_geozip =
     (let code = get record ''code'' in
      if code_rejected code then None
      else
        let record1 = record(''source'' \<mapsto> VStr source_name);
            record2 =
              (if \<not> has_geozip then record1(''geozip'' \<mapsto> VNone)
               else if record1 ''geozip'' = None \<or> \<not> truthy (get record1 ''geozip'')
                    then record1(''geozip'' \<mapsto> VNone)
               else record1)
        in
          if record2 ''release_date'' = None \<or> \<not> truthy (get record2 ''release_date'') then
            if truthy existing_release_date then
              Some (record2(''release_date'' \<mapsto> existing_release_date))
            else if record2 ''rel_date'' \<noteq> None \<and> truthy (get record2 ''rel_date'') then
              Some (record2(''release_date'' \<mapsto> get record2 ''rel_date''))
            else None
          else Some record2)"

section \<open>Intra-batch deduplicator\<close>

text \<open>
  The deduplication loop of \<^verbatim>\<open>insert_records\<close> (Novitas/database.py; the other sources
  carry the same loop).  The key is computed as the source computes it:
  \<^verbatim>\<open>record.get('geozip') or None\<close>,
  \<^verbatim>\<open>record.get('release_date') or record.get('rel_date', 'Unknown')\<close>.
  \<open>seen_keys\<close> maps a key to its index in \<open>deduplicated_records\<close>.  The index stored
  there is always in range, so the list assignment never raises.
\<close>

type_synonym key4 = "pyval \<times> pyval \<times> pyval \<times> pyval"

definition dedup_key :: "pydict \<Rightarrow> key4" where
  "dedup_key record =
     (let geozip = py_or (get record ''geozip'') VNone;
          release_date = py_or (get record ''release_date'')
             (case record ''rel_date'' of None \<Rightarrow> VStr ''Unknown'' | Some v \<Rightarrow> v)
      in (get record ''source'', get record ''code'', release_date, geozip))"

record dedup_state =
  seen_keys :: "key4 \<rightharpoonup> nat"
  deduplicated_records :: "pydict list"
  duplicates_removed :: nat

definition dedup_init :: dedup_state where
  "dedup_init = \<lparr>seen_keys = Map.empty, deduplicated_records = [], duplicates_removed = 0\<rparr>"

definition dedup_step :: "dedup_state \<Rightarrow> pydict \<Rightarrow> dedup_state" where
  "dedup_step s record =
     (let key = dedup_key record in
      case seen_keys s key of
        Some index \<Rightarrow>
          s\<lparr>duplicates_removed := duplicates_removed s + 1,
            deduplicated_records := (deduplicated_records s)[index := record]\<rparr>
      | None \<Rightarrow>
          s\<lparr>seen_keys := (seen_keys s)(key \<mapsto> length (deduplicated_records s)),
            deduplicated_records := deduplicated_records s @ [record]\<rparr>)"

definition dedup :: "pydict list \<Rightarrow> pydict list \<times> nat" where
  "dedup validated_records =
     (let s = foldl dedup_step dedup_init validated_records
      in (deduplicated_records s, duplicates_removed s))"

text \<open>
  The composite identity key \<open>(source, code, release_date, geozip)\<close> of a record, read
  with \<^verbatim>\<open>.get\<close> and left as it is (no coalescing, no normalisation).
\<close>

definition composite_key :: "pydict \<Rightarrow> key4" where
  "composite_key record =
     (get record ''source'', get record ''code'', get record ''release_date'',
      get record ''geozip'')"

text \<open>The distinct elements of a list in the order of their first occurrence.\<close>

definition first_seen :: "'a list \<Rightarrow> 'a list" where
  "first_seen ks = rev (remdups (rev ks))"

section \<open>Storage client\<close>

text \<open>
  Errors are values.  \<open>StorageError msg\<close> is any exception raised by a call of the
  storage client, with \<open>msg\<close> what \<^verbatim>\<open>str(e)\<close> gives; \<open>ValueError\<close> is the one Python raises
  for \<^verbatim>\<open>range(a, b, 0)\<close>.
\<close>

datatype error = StorageError string | ValueError string

fun error_str :: "error \<Rightarrow> string" where
  "error_str (StorageError msg) = msg"
| "error_str (ValueError msg) = msg"

text \<open>
  The functions of database_utils.py take the Supabase \<^verbatim>\<open>client\<close> as their first
  argument.  The client is a parameter of the model too: a record of the six calls the
  code makes, each a function of the store's state that returns an answer or an error,
  and the next state.  \<open>'st\<close> is the state of the store behind the client.

  \<^item> \<open>select_release_date table source\<close>:
    \<^verbatim>\<open>.select("release_date").eq("source", s).limit(1)\<close>
  \<^item> \<open>select_existing table source release_date codes\<close>:
    \<^verbatim>\<open>.select("id, code, source, release_date, geozip").eq(..).eq(..).in_("code", codes)\<close>
  \<^item> \<open>select_count table source release_date\<close>:
    \<^verbatim>\<open>.select("id", count="exact").eq(..).eq(..)\<close>, answering \<^verbatim>\<open>response.count\<close>
    (which may be \<^verbatim>\<open>None\<close>)
  \<^item> \<open>insert_many table records\<close>: \<^verbatim>\<open>.insert(list)\<close>
  \<^item> \<open>insert_one table record\<close>: \<^verbatim>\<open>.insert(dict)\<close>
  \<^item> \<open>update_by_id table record id\<close>: \<^verbatim>\<open>.update(record).eq("id", id)\<close>
\<close>

record 'st client =
  select_release_date :: "string \<Rightarrow> string \<Rightarrow> 'st \<Rightarrow> (error + pydict list) \<times> 'st"
  select_existing ::
    "string \<Rightarrow> string \<Rightarrow> pyval \<Rightarrow> pyval list \<Rightarrow> 'st \<Rightarrow> (error + pydict list) \<times> 'st"
  select_count :: "string \<Rightarrow> string \<Rightarrow> pyval \<Rightarrow> 'st \<Rightarrow> (error + nat option) \<times> 'st"
  insert_many :: "string \<Rightarrow> pydict list \<Rightarrow> 'st \<Rightarrow> (error + unit) \<times> 'st"
  insert_one :: "string \<Rightarrow> pydict \<Rightarrow> 'st \<Rightarrow> (error + unit) \<times> 'st"
  update_by_id :: "string \<Rightarrow> pydict \<Rightarrow> pyval \<Rightarrow> 'st \<Rightarrow> (error + unit) \<times> 'st"

text \<open>\<^verbatim>\<open>get_existing_release_date\<close>: any failure degrades to \<^verbatim>\<open>None\<close>.\<close>

definition get_existing_release_date ::
  "'st client \<Rightarrow> string \<Rightarrow> string \<Rightarrow> 'st \<Rightarrow> pyval \<times> 'st" where
  "get_existing_release_date client table_name source_name st =
     (case select_release_date client table_name source_name st of
        (Inl e, st') \<Rightarrow> (VNone, st')
      | (Inr data, st') \<Rightarrow>
          (case data of
             [] \<Rightarrow> (VNone, st')
           | row # _ \<Rightarrow>
               (let existing_date = get row ''release_date''
                in if truthy existing_date then (existing_date, st') else (VNone, st'))))"

section \<open>Processing one chunk\<close>

text \<open>
  The lookup key of \<^verbatim>\<open>_process_chunk\<close>: the code is normalised with \<^verbatim>\<open>str\<close>, the other
  three components are taken as they are.  The source computes it in the same way for
  a row returned by the store and for a record of the chunk.
\<close>

type_synonym lookup_key = "pyval \<times> string \<times> pyval \<times> pyval"

definition chunk_key :: "pydict \<Rightarrow> lookup_key" where
  "chunk_key d =
     (get d ''source'', py_str (get d ''code''), get d ''release_date'', get d ''geozip'')"

definition build_lookup :: "pydict list \<Rightarrow> (lookup_key \<rightharpoonup> pyval)" where
  "build_lookup data =
     foldl (\<lambda>existing_records existing.
              existing_records(chunk_key existing \<mapsto> get existing ''id''))
       Map.empty data"

text \<open>
  The batch existence check: one query, with the release date of the first record of
  the chunk.  A query that raises leaves the lookup empty.
\<close>

definition lookup_existing ::
  "'st client \<Rightarrow> string \<Rightarrow> string \<Rightarrow> pydict list \<Rightarrow> 'st \<Rightarrow> (lookup_key \<rightharpoonup> pyval) \<times> 'st" where
  "lookup_existing client table_name source_name chunk st =
     (let codes_in_chunk = filter truthy (map (\<lambda>r. get r ''code'') chunk);
          release_date_in_chunk = (case chunk of [] \<Rightarrow> VNone | r # _ \<Rightarrow> get r ''release_date'')
      in if codes_in_chunk \<noteq> [] \<and> truthy release_date_in_chunk then
           (case select_existing client table_name source_name release_date_in_chunk
                   codes_in_chunk st of
              (Inl e, st') \<Rightarrow> (Map.empty, st')
            | (Inr data, st') \<Rightarrow> (build_lookup data, st'))
         else (Map.empty, st))"

text \<open>
  The partition into \<open>records_to_insert\<close> and \<open>records_to_update\<close>; a record that is
  found gets the row id attached under \<^verbatim>\<open>'id'\<close>.
\<close>

fun classify :: "(lookup_key \<rightharpoonup> pyval) \<Rightarrow> pydict list \<Rightarrow> pydict list \<times> pydict list" where
  "classify existing_records [] = ([], [])"
| "classify existing_records (record # rest) =
     (let (records_to_insert, records_to_update) = classify existing_records rest in
      case existing_records (chunk_key record) of
        Some row_id \<Rightarrow> (records_to_insert, record(''id'' \<mapsto> row_id) # records_to_update)
      | None \<Rightarrow> (record # records_to_insert, records_to_update))"

text \<open>\<^verbatim>\<open>needle in hay\<close> and \<^verbatim>\<open>str.lower()\<close> (ASCII letters).\<close>

fun starts_with :: "string \<Rightarrow> string \<Rightarrow> bool" where
  "starts_with [] hay = True"
| "starts_with (c # cs) [] = False"
| "starts_with (c # cs) (h # hs) = (c = h \<and> starts_with cs hs)"

fun py_contains :: "string \<Rightarrow> string \<Rightarrow> bool" where
  "py_contains needle [] = (needle = [])"
| "py_contains needle (h # hs) = (starts_with needle (h # hs) \<or> py_contains needle hs)"

definition lower_char :: "char \<Rightarrow> char" where
  "lower_char c =
     (case map_of (zip ''ABCDEFGHIJKLMNOPQRSTUVWXYZ'' ''abcdefghijklmnopqrstuvwxyz'') c of
        Some l \<Rightarrow> l
      | None \<Rightarrow> c)"

definition py_lower :: "string \<Rightarrow> string" where
  "py_lower s = map lower_char s"

definition is_conflict_error :: "error \<Rightarrow> bool" where
  "is_conflict_error individual_error =
     (let error_str = error_str individual_error in
      py_contains ''409'' error_str \<or>
      py_contains ''duplicate key'' (py_lower error_str) \<or>
      py_contains ''unique constraint'' (py_lower error_str))"

text \<open>
  The fallback after a failed batch insert: one insert per record; a conflict is counted
  as an update, any other error is skipped.  The pair is
  \<open>(chunk_inserted, chunk_updated)\<close>.
\<close>

fun insert_individually ::
  "'st client \<Rightarrow> string \<Rightarrow> pydict list \<Rightarrow> nat \<times> nat \<Rightarrow> 'st \<Rightarrow> (nat \<times> nat) \<times> 'st" where
  "insert_individually client table_name [] counts st = (counts, st)"
| "insert_individually client table_name (record # rest) (chunk_inserted, chunk_updated) st =
     (case insert_one client table_name record st of
        (Inr _, st') \<Rightarrow>
          insert_individually client table_name rest (chunk_inserted + 1, chunk_updated) st'
      | (Inl individual_error, st') \<Rightarrow>
          if is_conflict_error individual_error then
            insert_individually client table_name rest (chunk_inserted, chunk_updated + 1) st'
          else insert_individually client table_name rest (chunk_inserted, chunk_updated) st')"

definition insert_stage ::
  "'st client \<Rightarrow> string \<Rightarrow> pydict list \<Rightarrow> 'st \<Rightarrow> (nat \<times> nat) \<times> 'st" where
  "insert_stage client table_name records_to_insert st =
     (if records_to_insert = [] then ((0, 0), st)
      else
        case insert_many client table_name records_to_insert st of
          (Inr _, st') \<Rightarrow> ((length records_to_insert, 0), st')
        | (Inl insert_error, st') \<Rightarrow>
            insert_individually client table_name records_to_insert (0, 0) st')"

text \<open>
  The updates: \<^verbatim>\<open>record.pop('id')\<close> takes the id off the record, the rest is the
  update's data.  A failed update is logged and not counted.
\<close>

fun update_stage ::
  "'st client \<Rightarrow> string \<Rightarrow> pydict list \<Rightarrow> nat \<Rightarrow> 'st \<Rightarrow> nat \<times> 'st" where
  "update_stage client table_name [] chunk_updated st = (chunk_updated, st)"
| "update_stage client table_name (record # rest) chunk_updated st =
     (case update_by_id client table_name (record(''id'' := None)) (get record ''id'') st of
        (Inr _, st') \<Rightarrow> update_stage client table_name rest (chunk_updated + 1) st'
      | (Inl update_error, st') \<Rightarrow> update_stage client table_name rest chunk_updated st')"

text \<open>
  \<^verbatim>\<open>_process_chunk\<close>.  Every call of the client is inside a \<^verbatim>\<open>try\<close> whose handler
  does not raise, so the function returns its pair of counts for every answer of the
  store.
\<close>

definition process_chunk ::
  "'st client \<Rightarrow> string \<Rightarrow> string \<Rightarrow> pydict list \<Rightarrow> 'st \<Rightarrow> (nat \<times> nat) \<times> 'st" where
  "process_chunk client table_name source_name chunk st =
     (let (existing_records, st1) = lookup_existing client table_name source_name chunk st;
          (records_to_insert, records_to_update) = classify existing_records chunk;
          ((chunk_inserted, chunk_updated), st2) =
             insert_stage client table_name records_to_insert st1;
          (chunk_updated', st3) =
             update_stage client table_name records_to_update chunk_updated st2
      in ((chunk_inserted, chunk_updated'), st3))"

section \<open>The early-exit check\<close>

text \<open>
  \<^verbatim>\<open>_check_all_records_exist\<close>: one count query for each distinct truthy release date of
  the records; the counts are summed (a \<^verbatim>\<open>None\<close> count adds nothing) and compared with
  the number of records.  A query that raises makes the check answer \<^verbatim>\<open>False\<close>.
  Python iterates over a \<^verbatim>\<open>set\<close>, in an order the language does not fix; the model
  asks in the order \<open>remdups\<close> gives.
\<close>

fun count_existing ::
  "'st client \<Rightarrow> string \<Rightarrow> string \<Rightarrow> pyval list \<Rightarrow> nat \<Rightarrow> 'st \<Rightarrow> (error + nat) \<times> 'st" where
  "count_existing client table_name source_name [] total_existing st = (Inr total_existing, st)"
| "count_existing client table_name source_name (release_date # rest) total_existing st =
     (case select_count client table_name source_name release_date st of
        (Inl e, st') \<Rightarrow> (Inl e, st')
      | (Inr cnt, st') \<Rightarrow>
          count_existing client table_name source_name rest
            (total_existing + (case cnt of None \<Rightarrow> 0 | Some n \<Rightarrow> n)) st')"

definition release_dates_of :: "pydict list \<Rightarrow> pyval list" where
  "release_dates_of records =
     remdups (filter truthy (map (\<lambda>r. get r ''release_date'') records))"

definition check_all_records_exist ::
  "'st client \<Rightarrow> string \<Rightarrow> string \<Rightarrow> pydict list \<Rightarrow> 'st \<Rightarrow> bool \<times> 'st" where
  "check_all_records_exist client table_name source_name records st =
     (let release_dates = release_dates_of records in
      if release_dates = [] then (False, st)
      else
        case count_existing client table_name source_name release_dates 0 st of
          (Inl e, st') \<Rightarrow> (False, st')
        | (Inr total_existing, st') \<Rightarrow> (length records \<le> total_existing, st'))"

section \<open>The reconciliation engine\<close>

datatype run_status = NoRecords | AlreadySynced | Success | PartialSuccess

record upsert_result =
  status :: run_status
  records_inserted :: nat
  records_updated :: nat
  records_upserted :: nat
  records_failed :: nat
  failed_chunks :: "nat list"
  table :: "string option"

record totals =
  total_inserted :: nat
  total_updated :: nat
  total_failed :: nat
  failed_chunk_nums :: "nat list"

text \<open>\<^verbatim>\<open>records[i:i + chunk_size] for i in range(0, len(records), chunk_size)\<close>, for a positive step.\<close>

function split_chunks :: "nat \<Rightarrow> 'a list \<Rightarrow> 'a list list" where
  "split_chunks n xs =
     (if n = 0 \<or> xs = [] then [] else take n xs # split_chunks n (drop n xs))"
  by pat_completeness auto
termination
  by (relation "measure (\<lambda>(n, xs). length xs)") auto

declare split_chunks.simps [simp del]

text \<open>
  The chunk loop of \<^verbatim>\<open>upsert_records_with_composite_key\<close>.  The loop calls
  \<^verbatim>\<open>_process_chunk\<close> inside \<^verbatim>\<open>try ... except Exception\<close>; to say what the handler does,
  the chunk processor is a parameter \<open>pc\<close> here, which answers the pair of counts or an
  error.  \<open>chunk_num\<close> is the number the source computes as
  \<^verbatim>\<open>((i - start_index) // chunk_size) + 1\<close>: the position of the chunk, from 1.
\<close>

fun process_chunks ::
  "(pydict list \<Rightarrow> 'st \<Rightarrow> (error + nat \<times> nat) \<times> 'st) \<Rightarrow> pydict list list \<Rightarrow> nat \<Rightarrow>
   totals \<Rightarrow> 'st \<Rightarrow> totals \<times> 'st" where
  "process_chunks pc [] chunk_num tot st = (tot, st)"
| "process_chunks pc (chunk # rest) chunk_num tot st =
     (case pc chunk st of
        (Inr (chunk_inserted, chunk_updated), st') \<Rightarrow>
          process_chunks pc rest (chunk_num + 1)
            (tot\<lparr>total_inserted := total_inserted tot + chunk_inserted,
                 total_updated := total_updated tot + chunk_updated\<rparr>) st'
      | (Inl chunk_error, st') \<Rightarrow>
          process_chunks pc rest (chunk_num + 1)
            (tot\<lparr>total_failed := total_failed tot + length chunk,
                 failed_chunk_nums := failed_chunk_nums tot @ [chunk_num]\<rparr>) st')"

definition final_result :: "string \<Rightarrow> totals \<Rightarrow> upsert_result" where
  "final_result table_name tot =
     \<lparr>status = (if total_failed tot = 0 then Success else PartialSuccess),
      records_inserted = total_inserted tot,
      records_updated = total_updated tot,
      records_upserted = total_inserted tot + total_updated tot,
      records_failed = total_failed tot,
      failed_chunks = failed_chunk_nums tot,
      table = Some table_name\<rparr>"

text \<open>
  The records from \<open>start_index\<close> on, cut into chunks.  \<^verbatim>\<open>range\<close> raises \<^verbatim>\<open>ValueError\<close>
  for a step of zero and is empty for a negative step (\<open>start_index\<close> is below the
  length); the error leaves through the outer handler, which re-raises it.
\<close>

definition run_chunks ::
  "(pydict list \<Rightarrow> 'st \<Rightarrow> (error + nat \<times> nat) \<times> 'st) \<Rightarrow> string \<Rightarrow> pydict list \<Rightarrow> nat \<Rightarrow>
   int \<Rightarrow> totals \<Rightarrow> 'st \<Rightarrow> (error + upsert_result) \<times> 'st" where
  "run_chunks pc table_name records start_index chunk_size tot st =
     (if chunk_size = 0 then (Inl (ValueError ''range() arg 3 must not be zero''), st)
      else
        let chunks = (if chunk_size < 0 then []
                      else split_chunks (nat chunk_size) (drop start_index records));
            (tot', st') = process_chunks pc chunks 1 tot st
        in (Inr (final_result table_name tot'), st'))"

definition SAMPLE_SIZE :: nat where
  "SAMPLE_SIZE = 50"

definition no_records_result :: upsert_result where
  "no_records_result =
     \<lparr>status = NoRecords, records_inserted = 0, records_updated = 0, records_upserted = 0,
      records_failed = 0, failed_chunks = [], table = None\<rparr>"

definition already_synced_result :: "string \<Rightarrow> nat \<Rightarrow> upsert_result" where
  "already_synced_result table_name sample_updated =
     \<lparr>status = AlreadySynced, records_inserted = 0, records_updated = sample_updated,
      records_upserted = sample_updated, records_failed = 0, failed_chunks = [],
      table = Some table_name\<rparr>"

definition zero_totals :: totals where
  "zero_totals = \<lparr>total_inserted = 0, total_updated = 0, total_failed = 0, failed_chunk_nums = []\<rparr>"

text \<open>
  \<^verbatim>\<open>upsert_records_with_composite_key\<close>, with the chunk processor \<open>pc\<close> and the early-exit
  check \<open>chk\<close> as parameters.  The sample is processed outside the per-chunk handler: an
  error there leaves the function.
\<close>

definition upsert_with ::
  "(pydict list \<Rightarrow> 'st \<Rightarrow> (error + nat \<times> nat) \<times> 'st) \<Rightarrow> (pydict list \<Rightarrow> 'st \<Rightarrow> bool \<times> 'st) \<Rightarrow>
   string \<Rightarrow> pydict list \<Rightarrow> int \<Rightarrow> 'st \<Rightarrow> (error + upsert_result) \<times> 'st" where
  "upsert_with pc chk table_name records chunk_size st =
     (if records = [] then (Inr no_records_result, st)
      else if SAMPLE_SIZE < length records then
        (case pc (take SAMPLE_SIZE records) st of
           (Inl e, st1) \<Rightarrow> (Inl e, st1)
         | (Inr (sample_inserted, sample_updated), st1) \<Rightarrow>
             let tot = zero_totals\<lparr>total_inserted := sample_inserted,
                                   total_updated := sample_updated\<rparr>
             in if sample_inserted = 0 \<and> 0 < sample_updated then
                  (case chk records st1 of
                     (True, st2) \<Rightarrow> (Inr (already_synced_result table_name sample_updated), st2)
                   | (False, st2) \<Rightarrow>
                       run_chunks pc table_name records SAMPLE_SIZE chunk_size tot st2)
                else run_chunks pc table_name records SAMPLE_SIZE chunk_size tot st1)
      else run_chunks pc table_name records 0 chunk_size zero_totals st)"

text \<open>The chunk processor the source calls: \<^verbatim>\<open>_process_chunk\<close>, which returns.\<close>

definition chunk_processor ::
  "'st client \<Rightarrow> string \<Rightarrow> string \<Rightarrow> pydict list \<Rightarrow> 'st \<Rightarrow> (error + nat \<times> nat) \<times> 'st" where
  "chunk_processor client table_name source_name chunk st =
     (case process_chunk client table_name source_name chunk st of (r, st') \<Rightarrow> (Inr r, st'))"

definition upsert_records_with_composite_key ::
  "'st client \<Rightarrow> string \<Rightarrow> string \<Rightarrow> pydict list \<Rightarrow> int \<Rightarrow> 'st \<Rightarrow> (error + upsert_result) \<times> 'st" where
  "upsert_records_with_composite_key client table_name source_name records chunk_size st =
     upsert_with (chunk_processor client table_name source_name)
       (check_all_records_exist client table_name source_name)
       table_name records chunk_size st"

section \<open>An in-memory store\<close>

text \<open>
  Modelled from the spec: the storage collaborator (the Supabase table behind the client),
  which is not part of the repository.  Section 6 of the specification lists its six
  operations and section 3 its one uniqueness constraint, on
  \<open>(source, code, release_date, geozip)\<close>.  The store keeps the rows in insertion order,
  assigns the row id itself, refuses an insert or an update that would give two rows the
  same composite key (null equals null here) with PostgreSQL's message for it, and keeps
  what it is given without converting it.  An update sets the columns it is given and
  leaves the others.  \<open>faults\<close> is a schedule of failures from outside: every call takes
  the head of the list, and \<open>Some msg\<close> makes that call raise with the message \<open>msg\<close>
  and change nothing.  The table name is not looked at: there is one table.
\<close>

record store =
  rows :: "pydict list"
  next_id :: int
  faults :: "string option list"

definition empty_store :: store where
  "empty_store = \<lparr>rows = [], next_id = 1, faults = []\<rparr>"

definition conflict_message :: string where
  "conflict_message = ''duplicate key value violates unique constraint''"

definition mem_call :: "(store \<Rightarrow> (error + 'a) \<times> store) \<Rightarrow> store \<Rightarrow> (error + 'a) \<times> store" where
  "mem_call f st =
     (case faults st of
        [] \<Rightarrow> f st
      | None # fs \<Rightarrow> f (st\<lparr>faults := fs\<rparr>)
      | Some msg # fs \<Rightarrow> (Inl (StorageError msg), st\<lparr>faults := fs\<rparr>))"

definition project :: "string list \<Rightarrow> pydict \<Rightarrow> pydict" where
  "project cols row = (\<lambda>k. if k \<in> set cols then Some (get row k) else None)"

definition matching_rows :: "string \<Rightarrow> pyval \<Rightarrow> pydict list \<Rightarrow> pydict list" where
  "matching_rows source_name release_date rs =
     filter (\<lambda>row. get row ''source'' = VStr source_name \<and>
                    get row ''release_date'' = release_date) rs"

fun assign_ids :: "int \<Rightarrow> pydict list \<Rightarrow> pydict list" where
  "assign_ids n [] = []"
| "assign_ids n (r # rs) = r(''id'' \<mapsto> VInt n) # assign_ids (n + 1) rs"

definition mem_insert :: "pydict list \<Rightarrow> store \<Rightarrow> (error + unit) \<times> store" where
  "mem_insert records st =
     (if \<not> distinct (map composite_key records) \<or>
         list_ex (\<lambda>r. composite_key r \<in> set (map composite_key (rows st))) records
      then (Inl (StorageError conflict_message), st)
      else (Inr (), st\<lparr>rows := rows st @ assign_ids (next_id st) records,
                        next_id := next_id st + int (length records)\<rparr>))"

definition mem_update :: "pydict \<Rightarrow> pyval \<Rightarrow> store \<Rightarrow> (error + unit) \<times> store" where
  "mem_update record row_id st =
     (let rows' = map (\<lambda>row. if get row ''id'' = row_id then row ++ record else row) (rows st)
      in if distinct (map composite_key rows') then (Inr (), st\<lparr>rows := rows'\<rparr>)
         else (Inl (StorageError conflict_message), st))"

definition mem_client :: "store client" where
  "mem_client =
     \<lparr>select_release_date = (\<lambda>table_name source_name.
        mem_call (\<lambda>st. (Inr (map (project [''release_date''])
           (take 1 (filter (\<lambda>row. get row ''source'' = VStr source_name) (rows st)))), st))),
      select_existing = (\<lambda>table_name source_name release_date codes.
        mem_call (\<lambda>st. (Inr (map (project [''id'', ''code'', ''source'', ''release_date'', ''geozip''])
           (filter (\<lambda>row. get row ''code'' \<in> set codes)
              (matching_rows source_name release_date (rows st)))), st))),
      select_count = (\<lambda>table_name source_name release_date.
        mem_call (\<lambda>st. (Inr (Some (length (matching_rows source_name release_date (rows st)))), st))),
      insert_many = (\<lambda>table_name records. mem_call (mem_insert records)),
      insert_one = (\<lambda>table_name record. mem_call (mem_insert [record])),
      update_by_id = (\<lambda>table_name record row_id. mem_call (mem_update record row_id))\<rparr>"

text \<open>A field of the record a function returns, when it returns one.\<close>

definition result_field :: "string \<Rightarrow> pydict option \<Rightarrow> pyval option" where
  "result_field k res = (case res of None \<Rightarrow> None | Some d \<Rightarrow> d k)"

section \<open>Auxiliary definitions for the proofs\<close>

text \<open>
  The invariant of the deduplication loop after the records \<open>xs\<close>: the output holds the
  keys of \<open>xs\<close> in first-seen order, \<open>seen_keys\<close> is the index of each key in it, every
  output record is the last of \<open>xs\<close> with its key, and every record is counted once.
\<close>

definition dedup_inv :: "pydict list \<Rightarrow> dedup_state \<Rightarrow> bool" where
  "dedup_inv xs s =
     (map dedup_key (deduplicated_records s) = first_seen (map dedup_key xs) \<and>
      (\<forall>k i. seen_keys s k = Some i \<longleftrightarrow>
              (i < length (deduplicated_records s) \<and> dedup_key (deduplicated_records s ! i) = k)) \<and>
      (\<forall>i < length (deduplicated_records s).
          deduplicated_records s ! i =
            last (filter (\<lambda>x. dedup_key x = dedup_key (deduplicated_records s ! i)) xs)) \<and>
      set (deduplicated_records s) \<subseteq> set xs \<and>
      duplicates_removed s + length (deduplicated_records s) = length xs)"

text \<open>The two records of the specification's scenario, as the Preparer returns them.\<close>

definition rec_a :: pydict where
  "rec_a = [''code'' \<mapsto> VStr ''99213'', ''release_date'' \<mapsto> VStr ''Jan 2025'',
            ''rate'' \<mapsto> VInt 50, ''source'' \<mapsto> VStr ''X'', ''geozip'' \<mapsto> VNone]"

definition rec_b :: pydict where
  "rec_b = [''code'' \<mapsto> VStr ''99213'', ''release_date'' \<mapsto> VStr ''Jan 2025'',
            ''rate'' \<mapsto> VInt 55, ''source'' \<mapsto> VStr ''X'', ''geozip'' \<mapsto> VNone]"

text \<open>
  The answers of the store to the single inserts of the fallback, and to the updates, in
  the order the loops make the calls; and the three ways to count them.
\<close>

fun individual_outcomes ::
  "'st client \<Rightarrow> string \<Rightarrow> pydict list \<Rightarrow> 'st \<Rightarrow> (error + unit) list" where
  "individual_outcomes client table_name [] st = []"
| "individual_outcomes client table_name (record # rest) st =
     (case insert_one client table_name record st of
        (res, st') \<Rightarrow> res # individual_outcomes client table_name rest st')"

fun update_outcomes ::
  "'st client \<Rightarrow> string \<Rightarrow> pydict list \<Rightarrow> 'st \<Rightarrow> (error + unit) list" where
  "update_outcomes client table_name [] st = []"
| "update_outcomes client table_name (record # rest) st =
     (case update_by_id client table_name (record(''id'' := None)) (get record ''id'') st of
        (res, st') \<Rightarrow> res # update_outcomes client table_name rest st')"

fun is_conflict :: "error + 'a \<Rightarrow> bool" where
  "is_conflict (Inl e) = is_conflict_error e"
| "is_conflict (Inr _) = False"

fun is_other_error :: "error + 'a \<Rightarrow> bool" where
  "is_other_error (Inl e) = (\<not> is_conflict_error e)"
| "is_other_error (Inr _) = False"

definition succeeded :: "(error + 'a) list \<Rightarrow> nat" where
  "succeeded outs = length (filter (\<lambda>out. \<not> isl out) outs)"

definition conflicts :: "(error + 'a) list \<Rightarrow> nat" where
  "conflicts outs = length (filter is_conflict outs)"

definition other_errors :: "(error + 'a) list \<Rightarrow> nat" where
  "other_errors outs = length (filter is_other_error outs)"

text \<open>
  A third record, of another release, and four states of the in-memory store: one that
  holds the third record, one that holds the second and the third, one whose only row
  has an empty-string \<open>geozip\<close>, and an empty one whose second and fourth calls will fail
  for reasons of their own.
\<close>

definition rec_c :: pydict where
  "rec_c = [''code'' \<mapsto> VStr ''99214'', ''release_date'' \<mapsto> VStr ''Feb 2025'',
            ''rate'' \<mapsto> VInt 70, ''source'' \<mapsto> VStr ''X'', ''geozip'' \<mapsto> VNone]"

definition store_c :: store where
  "store_c = \<lparr>rows = [rec_c(''id'' \<mapsto> VInt 1)], next_id = 2, faults = []\<rparr>"

definition store_bc :: store where
  "store_bc = \<lparr>rows = [rec_b(''id'' \<mapsto> VInt 1), rec_c(''id'' \<mapsto> VInt 2)], next_id = 3,
               faults = []\<rparr>"

definition store_blank :: store where
  "store_blank = \<lparr>rows = [rec_b(''geozip'' \<mapsto> VStr [], ''id'' \<mapsto> VInt 1)], next_id = 2,
                  faults = []\<rparr>"

definition store_flaky :: store where
  "store_flaky = \<lparr>rows = [], next_id = 1,
                  faults = [None, Some ''timeout'', None, Some ''connection reset'']\<rparr>"

text \<open>
  The answers of the chunk processor to the chunks of a run, in order, each call starting
  from the state the one before has left; and the counts an answer carries.
\<close>

fun chunk_outcomes ::
  "(pydict list \<Rightarrow> 'st \<Rightarrow> (error + nat \<times> nat) \<times> 'st) \<Rightarrow> pydict list list \<Rightarrow> 'st \<Rightarrow>
   (error + nat \<times> nat) list" where
  "chunk_outcomes pc [] st = []"
| "chunk_outcomes pc (chunk # rest) st =
     (case pc chunk st of (res, st') \<Rightarrow> res # chunk_outcomes pc rest st')"

fun inserted_of :: "error + nat \<times> nat \<Rightarrow> nat" where
  "inserted_of (Inl e) = 0"
| "inserted_of (Inr (i, u)) = i"

fun updated_of :: "error + nat \<times> nat \<Rightarrow> nat" where
  "updated_of (Inl e) = 0"
| "updated_of (Inr (i, u)) = u"

text \<open>
  A chunk processor for the scenario "chunk 2 of 5 raises": the state counts the calls,
  the second call raises, every other call reports its chunk as inserted.  And a check
  that is never consulted for a short batch.
\<close>

definition second_call_fails :: "pydict list \<Rightarrow> nat \<Rightarrow> (error + nat \<times> nat) \<times> nat" where
  "second_call_fails chunk calls =
     (if calls = 1 then (Inl (StorageError ''write failed''), calls + 1)
      else (Inr (length chunk, 0), calls + 1))"

definition no_check :: "pydict list \<Rightarrow> nat \<Rightarrow> bool \<times> nat" where
  "no_check records calls = (False, calls)"

text \<open>
  Records whose \<open>code\<close> is a string, as the data model has it; and the two conditions on
  the in-memory store that the two runs of the idempotence property keep.  A store is
  fresh for some records when it has no failure scheduled and none of its rows has the
  composite key of one of the records; it is synced with them when it has no failure
  scheduled, its rows have distinct composite keys and distinct ids, and every record is
  stored as it is, under some id.
\<close>

fun is_string :: "pyval \<Rightarrow> bool" where
  "is_string (VStr s) = True"
| "is_string v = False"

definition string_codes :: "pydict list \<Rightarrow> bool" where
  "string_codes rs = list_all (\<lambda>r. is_string (get r ''code'')) rs"

definition fresh_for :: "store \<Rightarrow> pydict list \<Rightarrow> bool" where
  "fresh_for st rs =
     (faults st = [] \<and> string_codes (rows st) \<and>
      (\<forall>r \<in> set rs. composite_key r \<notin> set (map composite_key (rows st))))"

definition synced_with :: "store \<Rightarrow> pydict list \<Rightarrow> bool" where
  "synced_with st rs =
     (faults st = [] \<and> string_codes (rows st) \<and>
      distinct (map composite_key (rows st)) \<and>
      distinct (map (\<lambda>row. get row ''id'') (rows st)) \<and>
      (\<forall>r \<in> set rs. \<exists>i. r(''id'' \<mapsto> i) \<in> set (rows st)))"

text \<open>The in-memory store after the records have been inserted into the empty store.\<close>

definition stored :: "pydict list \<Rightarrow> store" where
  "stored recs = \<lparr>rows = assign_ids 1 recs, next_id = 1 + int (length recs), faults = []\<rparr>"

text \<open>
  The answers of the store to the count queries of the early-exit check, one for each
  release date, in order; and the count an answer adds to the total.
\<close>

fun count_outcomes ::
  "'st client \<Rightarrow> string \<Rightarrow> string \<Rightarrow> pyval list \<Rightarrow> 'st \<Rightarrow> (error + nat option) list" where
  "count_outcomes client table_name source_name [] st = []"
| "count_outcomes client table_name source_name (release_date # rest) st =
     (case select_count client table_name source_name release_date st of
        (res, st') \<Rightarrow> res # count_outcomes client table_name source_name rest st')"

fun count_of :: "error + nat option \<Rightarrow> nat" where
  "count_of (Inr (Some n)) = n"
| "count_of out = 0"

text \<open>
  A batch of 51 records of one release, with the codes "1", "11", "111" and so on.
\<close>

definition batch51 :: "pydict list" where
  "batch51 = map (\<lambda>n. rec_b(''code'' \<mapsto> VStr (replicate (Suc n) (CHR ''1'')))) [0..<51]"

section \<open>Properties of the Preparer\<close>

text \<open>
  C8.  Geozip forcing: whenever the Preparer returns a record, its \<open>geozip\<close> is null
  (present, with value \<^verbatim>\<open>None\<close>) if \<open>has_geozip\<close> is false, whatever the input carried;
  and it is null as well if \<open>has_geozip\<close> is true and the input's \<open>geozip\<close> is missing or
  falsy.
\<close>

theorem prepare_geozip_forcing:
  assumes "prepare_record_for_insertion record source_name existing_release_date has_geozip
             = Some out"
  shows "(\<not> has_geozip \<longrightarrow> out ''geozip'' = Some VNone) \<and>
         (has_geozip \<and> (record ''geozip'' = None \<or> \<not> truthy (get record ''geozip''))
            \<longrightarrow> out ''geozip'' = Some VNone)"
  using assms
  by (auto simp: prepare_record_for_insertion_def Let_def get_def
           split: if_splits option.splits)

theorem prepare_geozip_forcing_witness:
  "\<exists>out. prepare_record_for_insertion
      [''code'' \<mapsto> VStr ''99213'', ''geozip'' \<mapsto> VStr ''070'',
       ''rel_date'' \<mapsto> VStr ''Jan 2025'']
      ''X'' VNone False = Some out \<and> out ''geozip'' = Some VNone"
proof -
  let ?r = "[''code'' \<mapsto> VStr ''99213'', ''geozip'' \<mapsto> VStr ''070'',
             ''rel_date'' \<mapsto> VStr ''Jan 2025'']"
  obtain out where o: "prepare_record_for_insertion ?r ''X'' VNone False = Some out"
    by (simp add: prepare_record_for_insertion_def Let_def get_def code_rejected_def
        py_strip_def is_space_def)
  from prepare_geozip_forcing [OF o] have "out ''geozip'' = Some VNone" by simp
  with o show ?thesis by blast
qed

text \<open>
  C6 as stated fails: a \<open>release_date\<close> that is present on the record but empty is not
  left as it is.  With the store tracking "January 2025", the record
  \<^verbatim>\<open>{code: "99213", release_date: ""}\<close> comes out with \<open>release_date = "January 2025"\<close>.
\<close>

theorem prepare_release_date_present_counterexample:
  "[''code'' \<mapsto> VStr ''99213'', ''release_date'' \<mapsto> VStr []] ''release_date''
     = Some (VStr []) \<and>
   result_field ''release_date''
     (prepare_record_for_insertion
        [''code'' \<mapsto> VStr ''99213'', ''release_date'' \<mapsto> VStr []]
        ''X'' (VStr ''January 2025'') False) = Some (VStr ''January 2025'')"
  by (simp add: prepare_record_for_insertion_def Let_def get_def code_rejected_def py_strip_def
      is_space_def result_field_def)

text \<open>
  C6, amended.  Release-date resolution goes by truth value, not by presence.  For a
  record that passes the code check: a truthy \<open>release_date\<close> (present, not null, not
  empty) is left as it is; otherwise a truthy \<open>existing_release_date\<close> is assigned;
  otherwise a truthy \<open>rel_date\<close> of the record is promoted to \<open>release_date\<close>; otherwise
  the Preparer returns \<^verbatim>\<open>None\<close>.
\<close>

theorem prepare_release_date_resolution:
  assumes "\<not> code_rejected (get record ''code'')"
  shows "(truthy (get record ''release_date'') \<longrightarrow>
            (\<exists>out. prepare_record_for_insertion record source_name erd has_geozip = Some out \<and>
                   out ''release_date'' = record ''release_date'')) \<and>
         (\<not> truthy (get record ''release_date'') \<and> truthy erd \<longrightarrow>
            (\<exists>out. prepare_record_for_insertion record source_name erd has_geozip = Some out \<and>
                   out ''release_date'' = Some erd)) \<and>
         (\<not> truthy (get record ''release_date'') \<and> \<not> truthy erd \<and>
          truthy (get record ''rel_date'') \<longrightarrow>
            (\<exists>out. prepare_record_for_insertion record source_name erd has_geozip = Some out \<and>
                   out ''release_date'' = Some (get record ''rel_date''))) \<and>
         (\<not> truthy (get record ''release_date'') \<and> \<not> truthy erd \<and>
          \<not> truthy (get record ''rel_date'') \<longrightarrow>
            prepare_record_for_insertion record source_name erd has_geozip = None)"
  using assms
  by (auto simp: prepare_record_for_insertion_def Let_def get_def split: option.splits)

text \<open>
  The scenario of the specification: the store tracks "January 2025", the record has no
  \<open>release_date\<close> and carries \<open>rel_date = "Jan 2025"\<close>; the output has
  \<open>release_date = "January 2025"\<close>.
\<close>

theorem prepare_release_date_resolution_witness:
  "\<not> code_rejected
       (get [''code'' \<mapsto> VStr ''99213'', ''rel_date'' \<mapsto> VStr ''Jan 2025''] ''code'') \<and>
   result_field ''release_date''
     (prepare_record_for_insertion
        [''code'' \<mapsto> VStr ''99213'', ''rel_date'' \<mapsto> VStr ''Jan 2025'']
        ''X'' (VStr ''January 2025'') False) = Some (VStr ''January 2025'')"
proof -
  let ?r = "[''code'' \<mapsto> VStr ''99213'', ''rel_date'' \<mapsto> VStr ''Jan 2025'']"
  have c: "\<not> code_rejected (get ?r ''code'')"
    by (simp add: get_def code_rejected_def py_strip_def is_space_def)
  from prepare_release_date_resolution [OF c, of "''X''" "VStr ''January 2025''" False]
  show ?thesis using c by (auto simp: get_def result_field_def)
qed

section \<open>Properties of the deduplicator\<close>

lemma first_seen_snoc:
  "first_seen (ks @ [k]) = (if k \<in> set ks then first_seen ks else first_seen ks @ [k])"
  by (simp add: first_seen_def)

lemma set_first_seen [simp]: "set (first_seen ks) = set ks"
  by (simp add: first_seen_def)

lemma distinct_first_seen [simp]: "distinct (first_seen ks)"
  by (simp add: first_seen_def)

lemma dedup_inv_init: "dedup_inv [] dedup_init"
  by (simp add: dedup_inv_def dedup_init_def first_seen_def)

lemma dedup_inv_step:
  assumes inv: "dedup_inv xs s"
  shows "dedup_inv (xs @ [x]) (dedup_step s x)"
proof -
  let ?out = "deduplicated_records s"
  let ?k = "dedup_key x"
  from inv have a: "map dedup_key ?out = first_seen (map dedup_key xs)"
    and b: "\<And>k i. seen_keys s k = Some i \<longleftrightarrow> (i < length ?out \<and> dedup_key (?out ! i) = k)"
    and c: "\<And>i. i < length ?out \<Longrightarrow>
              ?out ! i = last (filter (\<lambda>x. dedup_key x = dedup_key (?out ! i)) xs)"
    and e: "set ?out \<subseteq> set xs"
    and d: "duplicates_removed s + length ?out = length xs"
    by (auto simp: dedup_inv_def)
  have dist: "distinct (map dedup_key ?out)" by (simp add: a)
  have keys: "set (map dedup_key ?out) = set (map dedup_key xs)" by (simp add: a)
  show ?thesis
  proof (cases "seen_keys s ?k")
    case None
    have notin: "?k \<notin> set (map dedup_key ?out)"
    proof
      assume "?k \<in> set (map dedup_key ?out)"
      then obtain i where "i < length ?out" "dedup_key (?out ! i) = ?k"
        by (auto simp: in_set_conv_nth)
      with b have "seen_keys s ?k = Some i" by blast
      with None show False by simp
    qed
    then have notin': "?k \<notin> set (map dedup_key xs)" using keys by simp
    have s': "dedup_step s x =
                s\<lparr>seen_keys := (seen_keys s)(?k \<mapsto> length ?out),
                  deduplicated_records := ?out @ [x]\<rparr>"
      using None by (simp add: dedup_step_def Let_def)
    have a': "map dedup_key (?out @ [x]) = first_seen (map dedup_key (xs @ [x]))"
      using notin' a by (simp add: first_seen_snoc)
    have b': "\<And>k i. ((seen_keys s)(?k \<mapsto> length ?out)) k = Some i \<longleftrightarrow>
                 (i < length (?out @ [x]) \<and> dedup_key ((?out @ [x]) ! i) = k)"
    proof -
      fix k i
      show "((seen_keys s)(?k \<mapsto> length ?out)) k = Some i \<longleftrightarrow>
                 (i < length (?out @ [x]) \<and> dedup_key ((?out @ [x]) ! i) = k)"
      proof (cases "i < length ?out")
        case True
        then have "dedup_key (?out ! i) \<noteq> ?k" using notin by (metis length_map nth_map nth_mem)
        with True show ?thesis using b [of k i] by (auto simp: nth_append)
      next
        case False
        then show ?thesis using b [of k i] by (auto simp: nth_append less_Suc_eq)
      qed
    qed
    have c': "\<And>i. i < length (?out @ [x]) \<Longrightarrow>
              (?out @ [x]) ! i =
                last (filter (\<lambda>y. dedup_key y = dedup_key ((?out @ [x]) ! i)) (xs @ [x]))"
    proof -
      fix i assume i: "i < length (?out @ [x])"
      show "(?out @ [x]) ! i =
                last (filter (\<lambda>y. dedup_key y = dedup_key ((?out @ [x]) ! i)) (xs @ [x]))"
      proof (cases "i < length ?out")
        case True
        then have "dedup_key (?out ! i) \<noteq> ?k" using notin by (metis length_map nth_map nth_mem)
        with True c [of i] show ?thesis by (simp add: nth_append)
      next
        case False
        with i have "i = length ?out" by simp
        then show ?thesis by simp
      qed
    qed
    show ?thesis
      unfolding dedup_inv_def s' using a' b' c' d e by (simp del: map_append) auto
  next
    case (Some i)
    with b have i: "i < length ?out" and ki: "dedup_key (?out ! i) = ?k" by auto
    then have kin: "?k \<in> set (map dedup_key xs)"
      using keys by (metis length_map nth_map nth_mem)
    have s': "dedup_step s x =
                s\<lparr>duplicates_removed := duplicates_removed s + 1,
                  deduplicated_records := ?out[i := x]\<rparr>"
      using Some by (simp add: dedup_step_def Let_def)
    have same: "map dedup_key (?out[i := x]) = map dedup_key ?out"
      using i ki by (simp add: map_update list_update_same_conv)
    have a': "map dedup_key (?out[i := x]) = first_seen (map dedup_key (xs @ [x]))"
      using same a kin by (simp add: first_seen_snoc)
    have nthkey: "\<And>j. j < length ?out \<Longrightarrow> dedup_key (?out[i := x] ! j) = dedup_key (?out ! j)"
      using same by (metis length_list_update nth_map)
    have b': "\<And>k j. seen_keys s k = Some j \<longleftrightarrow>
                 (j < length (?out[i := x]) \<and> dedup_key (?out[i := x] ! j) = k)"
      using b nthkey by auto
    have c': "\<And>j. j < length (?out[i := x]) \<Longrightarrow>
              ?out[i := x] ! j =
                last (filter (\<lambda>y. dedup_key y = dedup_key (?out[i := x] ! j)) (xs @ [x]))"
    proof -
      fix j assume j: "j < length (?out[i := x])"
      show "?out[i := x] ! j =
                last (filter (\<lambda>y. dedup_key y = dedup_key (?out[i := x] ! j)) (xs @ [x]))"
      proof (cases "j = i")
        case True
        with i show ?thesis by simp
      next
        case False
        with j i dist have "dedup_key (?out ! j) \<noteq> dedup_key (?out ! i)"
          by (auto simp: distinct_conv_nth)
        with False j c [of j] ki show ?thesis by simp
      qed
    qed
    have e': "set (?out[i := x]) \<subseteq> set (xs @ [x])"
      using e set_update_subset_insert [of ?out i x] by auto
    show ?thesis
      unfolding dedup_inv_def s' using a' b' c' d e' by simp
  qed
qed

lemma dedup_inv_foldl: "dedup_inv xs (foldl dedup_step dedup_init xs)"
  by (induction xs rule: rev_induct) (simp_all add: dedup_inv_init dedup_inv_step)

lemma get_upd: "get (d(k \<mapsto> v)) k' = (if k' = k then v else get d k')"
  by (simp add: get_def)

lemma prepared_release_date:
  assumes "prepare_record_for_insertion r0 source_name erd has_geozip = Some r"
  shows "truthy (get r ''release_date'')"
  using assms
  by (auto simp: prepare_record_for_insertion_def Let_def get_upd split: if_splits)

lemma prepared_geozip:
  assumes "prepare_record_for_insertion r0 source_name erd has_geozip = Some r"
  shows "get r ''geozip'' = VNone \<or> truthy (get r ''geozip'')"
  using assms
  by (auto simp: prepare_record_for_insertion_def Let_def get_upd split: if_splits)

lemma prepared_dedup_key:
  assumes "prepare_record_for_insertion r0 source_name erd has_geozip = Some r"
  shows "dedup_key r = composite_key r"
  using prepared_release_date [OF assms] prepared_geozip [OF assms]
  by (auto simp: dedup_key_def composite_key_def py_or_def Let_def)

text \<open>
  C2.  Dedup correctness, for every list of prepared records (records the Preparer has
  returned): the output has exactly one record for each distinct key
  \<open>(source, code, release_date, geozip)\<close> of the input, that record is the last input
  record with the key, the keys of the output are those of the input in the order of their
  first occurrence, and \<open>duplicates_removed\<close> is the length of the input minus the length
  of the output.
\<close>

theorem dedup_correct:
  assumes prep: "\<forall>r \<in> set validated_records.
             \<exists>r0 source_name erd has_geozip.
               prepare_record_for_insertion r0 source_name erd has_geozip = Some r"
    and res: "dedup validated_records = (out, removed)"
  shows "distinct (map composite_key out) \<and>
         set (map composite_key out) = set (map composite_key validated_records) \<and>
         (\<forall>r \<in> set out. r \<in> set validated_records \<and>
             r = last (filter (\<lambda>x. composite_key x = composite_key r) validated_records)) \<and>
         map composite_key out = first_seen (map composite_key validated_records) \<and>
         length out \<le> length validated_records \<and>
         removed = length validated_records - length out"
proof -
  let ?s = "foldl dedup_step dedup_init validated_records"
  have out: "out = deduplicated_records ?s" and rem: "removed = duplicates_removed ?s"
    using res by (simp_all add: dedup_def Let_def)
  have inv: "dedup_inv validated_records ?s" by (rule dedup_inv_foldl)
  have keq: "\<And>r. r \<in> set validated_records \<Longrightarrow> dedup_key r = composite_key r"
    using prep prepared_dedup_key by blast
  have sub: "set out \<subseteq> set validated_records"
    using inv by (simp add: dedup_inv_def out)
  have m1: "map dedup_key validated_records = map composite_key validated_records"
    using keq by simp
  have m2: "map dedup_key out = map composite_key out"
    using keq sub by auto
  have a: "map composite_key out = first_seen (map composite_key validated_records)"
    using inv m1 m2 by (simp add: dedup_inv_def out)
  have c: "\<forall>r \<in> set out. r \<in> set validated_records \<and>
             r = last (filter (\<lambda>x. composite_key x = composite_key r) validated_records)"
  proof
    fix r assume r: "r \<in> set out"
    then obtain i where i: "i < length out" "out ! i = r" by (auto simp: in_set_conv_nth)
    with inv have "r = last (filter (\<lambda>x. dedup_key x = dedup_key r) validated_records)"
      by (auto simp: dedup_inv_def out)
    moreover have "filter (\<lambda>x. dedup_key x = dedup_key r) validated_records
          = filter (\<lambda>x. composite_key x = composite_key r) validated_records"
      using keq r sub by (intro filter_cong) auto
    ultimately show "r \<in> set validated_records \<and>
             r = last (filter (\<lambda>x. composite_key x = composite_key r) validated_records)"
      using r sub by auto
  qed
  have d: "removed + length out = length validated_records"
    using inv by (simp add: dedup_inv_def out rem)
  show ?thesis using a c d by (simp add: a)
qed

theorem dedup_correct_witness:
  "dedup [rec_a, rec_b] = ([rec_b], 1) \<and>
   map composite_key [rec_b] = first_seen (map composite_key [rec_a, rec_b]) \<and>
   (1::nat) = length [rec_a, rec_b] - length [rec_b]"
proof -
  have pa: "prepare_record_for_insertion
              [''code'' \<mapsto> VStr ''99213'', ''release_date'' \<mapsto> VStr ''Jan 2025'',
               ''rate'' \<mapsto> VInt 50] ''X'' VNone False = Some rec_a"
    by (simp add: prepare_record_for_insertion_def Let_def get_def code_rejected_def
        py_strip_def is_space_def rec_a_def)
  have pb: "prepare_record_for_insertion
              [''code'' \<mapsto> VStr ''99213'', ''release_date'' \<mapsto> VStr ''Jan 2025'',
               ''rate'' \<mapsto> VInt 55] ''X'' VNone False = Some rec_b"
    by (simp add: prepare_record_for_insertion_def Let_def get_def code_rejected_def
        py_strip_def is_space_def rec_b_def)
  have prep: "\<forall>r \<in> set [rec_a, rec_b].
             \<exists>r0 source_name erd has_geozip.
               prepare_record_for_insertion r0 source_name erd has_geozip = Some r"
    using pa pb by auto
  have ka: "dedup_key rec_a = (VStr ''X'', VStr ''99213'', VStr ''Jan 2025'', VNone)"
    by (simp add: dedup_key_def rec_a_def get_def py_or_def)
  have kb: "dedup_key rec_b = (VStr ''X'', VStr ''99213'', VStr ''Jan 2025'', VNone)"
    by (simp add: dedup_key_def rec_b_def get_def py_or_def)
  have res: "dedup [rec_a, rec_b] = ([rec_b], 1)"
    by (simp add: dedup_def dedup_step_def dedup_init_def Let_def ka kb)
  from dedup_correct [OF prep res] res show ?thesis by blast
qed

section \<open>Properties of chunk processing\<close>

subsection \<open>Counting the answers of the store\<close>

lemma outcome_partition:
  "succeeded outs + conflicts outs + other_errors outs = length outs"
proof (induction outs)
  case Nil
  then show ?case by (simp add: succeeded_def conflicts_def other_errors_def)
next
  case (Cons a outs)
  then show ?case
    by (cases a) (auto simp: succeeded_def conflicts_def other_errors_def)
qed

lemma isl_partition: "succeeded outs + length (filter isl outs) = length outs"
  unfolding succeeded_def by (induction outs) auto

lemma length_individual_outcomes [simp]:
  "length (individual_outcomes client table_name rs st) = length rs"
  by (induction rs arbitrary: st) (auto split: prod.splits)

lemma length_update_outcomes [simp]:
  "length (update_outcomes client table_name rs st) = length rs"
  by (induction rs arbitrary: st) (auto split: prod.splits)

lemma insert_individually_counts:
  "fst (insert_individually client table_name rs (i, u) st) =
     (i + succeeded (individual_outcomes client table_name rs st),
      u + conflicts (individual_outcomes client table_name rs st))"
proof (induction rs arbitrary: i u st)
  case Nil
  then show ?case by (simp add: succeeded_def conflicts_def)
next
  case (Cons r rs)
  obtain res st' where io: "insert_one client table_name r st = (res, st')"
    by (cases "insert_one client table_name r st")
  show ?case
  proof (cases res)
    case (Inl e)
    with io Cons show ?thesis by (simp add: succeeded_def conflicts_def)
  next
    case (Inr x)
    with io Cons show ?thesis by (simp add: succeeded_def conflicts_def)
  qed
qed

lemma update_stage_counts:
  "fst (update_stage client table_name rs u st) =
     u + succeeded (update_outcomes client table_name rs st)"
proof (induction rs arbitrary: u st)
  case Nil
  then show ?case by (simp add: succeeded_def)
next
  case (Cons r rs)
  obtain res st' where uo:
    "update_by_id client table_name (r(''id'' := None)) (get r ''id'') st = (res, st')"
    by (cases "update_by_id client table_name (r(''id'' := None)) (get r ''id'') st")
  show ?case
  proof (cases res)
    case (Inl e)
    with uo Cons show ?thesis by (simp add: succeeded_def)
  next
    case (Inr x)
    with uo Cons show ?thesis by (simp add: succeeded_def)
  qed
qed

subsection \<open>The lookup and the partition\<close>

lemma classify_fst:
  "fst (classify ex chunk) = filter (\<lambda>r. ex (chunk_key r) = None) chunk"
  by (induction chunk) (auto split: prod.splits option.splits)

lemma classify_snd:
  "snd (classify ex chunk) =
     map (\<lambda>r. r(''id'' \<mapsto> the (ex (chunk_key r)))) (filter (\<lambda>r. ex (chunk_key r) \<noteq> None) chunk)"
  by (induction chunk) (auto split: prod.splits option.splits)

lemma classify_lengths:
  "length (fst (classify ex chunk)) + length (snd (classify ex chunk)) = length chunk"
  by (induction chunk) (auto split: prod.splits option.splits)

lemma foldl_lookup_dom:
  "foldl (\<lambda>m existing. m(chunk_key existing \<mapsto> get existing ''id'')) m0 data k = Some v \<Longrightarrow>
     m0 k = Some v \<or> (\<exists>existing \<in> set data. chunk_key existing = k \<and> v = get existing ''id'')"
  by (induction data arbitrary: m0) (fastforce split: if_splits)+

lemma build_lookup_Some:
  "build_lookup data k = Some v \<Longrightarrow>
     \<exists>existing \<in> set data. chunk_key existing = k \<and> v = get existing ''id''"
  unfolding build_lookup_def using foldl_lookup_dom [of Map.empty data k v] by simp

lemma foldl_lookup_in:
  "existing \<in> set data \<Longrightarrow>
   foldl (\<lambda>m existing. m(chunk_key existing \<mapsto> get existing ''id'')) m0 data (chunk_key existing) \<noteq> None"
proof (induction data arbitrary: m0 rule: rev_induct)
  case Nil
  then show ?case by simp
next
  case (snoc x xs)
  then show ?case by (cases "existing = x") auto
qed

lemma build_lookup_in:
  "existing \<in> set data \<Longrightarrow> build_lookup data (chunk_key existing) \<noteq> None"
  unfolding build_lookup_def by (rule foldl_lookup_in)

lemma lookup_existing_Some:
  assumes "lookup_existing client table_name source_name chunk st = (existing_records, st1)"
    and "existing_records k = Some v"
  shows "\<exists>data. select_existing client table_name source_name
                  (get (hd chunk) ''release_date'')
                  (filter truthy (map (\<lambda>r. get r ''code'') chunk)) st = (Inr data, st1) \<and>
               existing_records = build_lookup data \<and> chunk \<noteq> []"
  using assms
  by (cases chunk) (auto simp: lookup_existing_def Let_def split: if_splits prod.splits sum.splits)

subsection \<open>The stages of a chunk\<close>

lemma process_chunk_unfold:
  assumes "lookup_existing client table_name source_name chunk st = (existing_records, st1)"
    and "classify existing_records chunk = (records_to_insert, records_to_update)"
    and "insert_stage client table_name records_to_insert st1 = ((ci, cu), st2)"
  shows "process_chunk client table_name source_name chunk st =
           ((ci, fst (update_stage client table_name records_to_update cu st2)),
            snd (update_stage client table_name records_to_update cu st2))"
  using assms by (simp add: process_chunk_def split: prod.splits)

lemma insert_stage_fallback:
  assumes "records_to_insert \<noteq> []"
    and "insert_many client table_name records_to_insert st1 = (Inl e, st2)"
  shows "insert_stage client table_name records_to_insert st1 =
           insert_individually client table_name records_to_insert (0, 0) st2"
  using assms by (simp add: insert_stage_def)

lemma process_chunk_after_failed_batch:
  assumes le: "lookup_existing client table_name source_name chunk st = (existing_records, st1)"
    and cl: "classify existing_records chunk = (records_to_insert, records_to_update)"
    and ne: "records_to_insert \<noteq> []"
    and batch: "insert_many client table_name records_to_insert st1 = (Inl e, st2)"
  shows "fst (process_chunk client table_name source_name chunk st) =
           (succeeded (individual_outcomes client table_name records_to_insert st2),
            conflicts (individual_outcomes client table_name records_to_insert st2) +
            succeeded (update_outcomes client table_name records_to_update
              (snd (insert_individually client table_name records_to_insert (0, 0) st2))))"
proof -
  let ?ii = "insert_individually client table_name records_to_insert (0, 0) st2"
  have stage: "insert_stage client table_name records_to_insert st1 = (fst ?ii, snd ?ii)"
    using insert_stage_fallback [OF ne batch] by simp
  have c: "fst ?ii = (succeeded (individual_outcomes client table_name records_to_insert st2),
                      conflicts (individual_outcomes client table_name records_to_insert st2))"
    using insert_individually_counts [of client table_name records_to_insert 0 0 st2] by simp
  from stage c have stage': "insert_stage client table_name records_to_insert st1 =
      ((succeeded (individual_outcomes client table_name records_to_insert st2),
        conflicts (individual_outcomes client table_name records_to_insert st2)), snd ?ii)"
    by simp
  show ?thesis
    unfolding process_chunk_unfold [OF le cl stage']
    by (simp add: update_stage_counts)
qed

lemma split_chunks_single:
  assumes "xs \<noteq> []" "length xs \<le> n"
  shows "split_chunks n xs = [xs]"
proof -
  from assms have "n \<noteq> 0" by (cases xs) auto
  with assms show ?thesis
    by (simp add: split_chunks.simps [of n xs] split_chunks.simps [of n "[]"])
qed

lemma upsert_one_chunk:
  assumes ne: "records \<noteq> []"
    and small: "length records \<le> SAMPLE_SIZE"
    and cs: "int (length records) \<le> chunk_size"
  shows "upsert_records_with_composite_key client table_name source_name records chunk_size st =
           (Inr (final_result table_name
                   (zero_totals\<lparr>total_inserted :=
                        fst (fst (process_chunk client table_name source_name records st)),
                      total_updated :=
                        snd (fst (process_chunk client table_name source_name records st))\<rparr>)),
            snd (process_chunk client table_name source_name records st))"
proof -
  from ne cs have pos: "0 < chunk_size" by (cases records) auto
  from cs pos have le: "length records \<le> nat chunk_size" by simp
  have sp: "split_chunks (nat chunk_size) records = [records]"
    using split_chunks_single [OF ne le] .
  obtain ci cu st' where pc: "process_chunk client table_name source_name records st = ((ci, cu), st')"
    by (metis surj_pair)
  show ?thesis
    using ne small pos sp pc
    by (simp add: upsert_records_with_composite_key_def upsert_with_def run_chunks_def
        chunk_processor_def zero_totals_def)
qed

subsection \<open>Evaluating the in-memory client\<close>

lemma mem_client_sel [simp]:
  "select_existing mem_client = (\<lambda>table_name source_name release_date codes.
        mem_call (\<lambda>st. (Inr (map (project [''id'', ''code'', ''source'', ''release_date'', ''geozip''])
           (filter (\<lambda>row. get row ''code'' \<in> set codes)
              (matching_rows source_name release_date (rows st)))), st)))"
  "select_count mem_client = (\<lambda>table_name source_name release_date.
        mem_call (\<lambda>st. (Inr (Some (length (matching_rows source_name release_date (rows st)))), st)))"
  "insert_many mem_client = (\<lambda>table_name records. mem_call (mem_insert records))"
  "insert_one mem_client = (\<lambda>table_name record. mem_call (mem_insert [record]))"
  "update_by_id mem_client = (\<lambda>table_name record row_id. mem_call (mem_update record row_id))"
  by (simp_all add: mem_client_def)

lemma get_project:
  "get (project cols row) k = (if k \<in> set cols then get row k else VNone)"
  by (simp add: project_def get_def)

lemma mem_client_honours:
  "select_existing mem_client table_name source_name rd codes st0 = (Inr data, st0') \<Longrightarrow>
   row \<in> set data \<Longrightarrow> get row ''release_date'' = rd"
  by (auto simp: mem_call_def matching_rows_def get_project split: list.splits option.splits)

lemma rec_gets [simp]:
  "get rec_a ''code'' = VStr ''99213''" "get rec_a ''release_date'' = VStr ''Jan 2025''"
  "get rec_a ''source'' = VStr ''X''" "get rec_a ''geozip'' = VNone"
  "get rec_b ''code'' = VStr ''99213''" "get rec_b ''release_date'' = VStr ''Jan 2025''"
  "get rec_b ''source'' = VStr ''X''" "get rec_b ''geozip'' = VNone"
  "get rec_c ''code'' = VStr ''99214''" "get rec_c ''release_date'' = VStr ''Feb 2025''"
  "get rec_c ''source'' = VStr ''X''" "get rec_c ''geozip'' = VNone"
  by (simp_all add: rec_a_def rec_b_def rec_c_def get_def)

lemma get_upd_other [simp]: "k' \<noteq> k \<Longrightarrow> get (d(k \<mapsto> v)) k' = get d k'"
  by (simp add: get_def)

lemma get_upd_same [simp]: "get (d(k \<mapsto> v)) k = v"
  by (simp add: get_def)

lemma conflict_message_is_conflict [simp]:
  "is_conflict_error (StorageError conflict_message)"
  by (simp add: is_conflict_error_def conflict_message_def py_lower_def lower_char_def)

lemma ckeys [simp]:
  "composite_key rec_a = (VStr ''X'', VStr ''99213'', VStr ''Jan 2025'', VNone)"
  "composite_key rec_b = (VStr ''X'', VStr ''99213'', VStr ''Jan 2025'', VNone)"
  "composite_key rec_c = (VStr ''X'', VStr ''99214'', VStr ''Feb 2025'', VNone)"
  by (simp_all add: composite_key_def)

lemma composite_key_id [simp]: "composite_key (r(''id'' \<mapsto> v)) = composite_key r"
  by (simp add: composite_key_def)

subsection \<open>The claims about one chunk\<close>

text \<open>
  C7.  Insert-race fallback: in a chunk whose batch insert fails, every record to insert
  is inserted on its own; the chunk's inserted count is the number of single inserts that
  succeeded, and every single insert that failed with a uniqueness violation (an error
  whose text has \<^verbatim>\<open>409\<close>, \<^verbatim>\<open>duplicate key\<close> or \<^verbatim>\<open>unique constraint\<close>) adds one to the
  updated count, next to the updates that succeeded; the chunk returns its counts and
  does not fail.
\<close>

theorem insert_race_fallback:
  assumes le: "lookup_existing client table_name source_name chunk st = (existing_records, st1)"
    and cl: "classify existing_records chunk = (records_to_insert, records_to_update)"
    and ne: "records_to_insert \<noteq> []"
    and batch: "insert_many client table_name records_to_insert st1 = (Inl e, st2)"
  shows "let outs = individual_outcomes client table_name records_to_insert st2;
             st3 = snd (insert_individually client table_name records_to_insert (0, 0) st2)
         in length outs = length records_to_insert \<and>
            fst (process_chunk client table_name source_name chunk st) =
              (succeeded outs,
               conflicts outs + succeeded (update_outcomes client table_name records_to_update st3))"
  unfolding Let_def
  using process_chunk_after_failed_batch [OF le cl ne batch] by simp

text \<open>
  The store holds the third record; the chunk is the second and the third record.  The
  lookup asks for "Jan 2025" and finds nothing, the batch insert is refused, the second
  record is inserted on its own and the third counts as an update.
\<close>

theorem insert_race_fallback_witness:
  "fst (process_chunk mem_client ''benchmarks'' ''X'' [rec_b, rec_c] store_c) = (1, 1)"
proof -
  have le: "lookup_existing mem_client ''benchmarks'' ''X'' [rec_b, rec_c] store_c
              = (Map.empty, store_c)"
    by (simp add: lookup_existing_def mem_call_def store_c_def matching_rows_def build_lookup_def)
  have cl: "classify Map.empty [rec_b, rec_c] = ([rec_b, rec_c], [])" by simp
  have ne: "[rec_b, rec_c] \<noteq> []" by simp
  have batch: "insert_many mem_client ''benchmarks'' [rec_b, rec_c] store_c
                 = (Inl (StorageError conflict_message), store_c)"
    by (simp add: mem_call_def mem_insert_def store_c_def)
  have outs: "individual_outcomes mem_client ''benchmarks'' [rec_b, rec_c] store_c
                = [Inr (), Inl (StorageError conflict_message)]"
    by (simp add: mem_call_def mem_insert_def store_c_def)
  from insert_race_fallback [OF le cl ne batch, unfolded Let_def outs] show ?thesis
    by (simp add: succeeded_def conflicts_def)
qed

text \<open>
  C9.  Silent loss in the fallback: in a run of one chunk whose batch insert fails, the
  run succeeds with \<open>records_failed = 0\<close>, the inserted count is the number of single
  inserts that succeeded and the updated count the number of conflicts and of successful
  updates; a record whose single insert failed with any other error is in none of the
  three counts, so that inserted + updated + failed falls short of the number of records
  by the number of such records (and of failed updates).
\<close>

theorem fallback_silent_loss:
  assumes ne: "records \<noteq> []"
    and small: "length records \<le> SAMPLE_SIZE"
    and cs: "int (length records) \<le> chunk_size"
    and le: "lookup_existing client table_name source_name records st = (existing_records, st1)"
    and cl: "classify existing_records records = (records_to_insert, records_to_update)"
    and ins: "records_to_insert \<noteq> []"
    and batch: "insert_many client table_name records_to_insert st1 = (Inl e, st2)"
  shows "let outs = individual_outcomes client table_name records_to_insert st2;
             st3 = snd (insert_individually client table_name records_to_insert (0, 0) st2);
             update_outs = update_outcomes client table_name records_to_update st3
         in \<exists>res st'.
              upsert_records_with_composite_key client table_name source_name records
                chunk_size st = (Inr res, st') \<and>
              status res = Success \<and> records_failed res = 0 \<and> failed_chunks res = [] \<and>
              records_inserted res = succeeded outs \<and>
              records_updated res = conflicts outs + succeeded update_outs \<and>
              records_inserted res + records_updated res + records_failed res +
                other_errors outs + length (filter isl update_outs) = length records"
proof -
  let ?outs = "individual_outcomes client table_name records_to_insert st2"
  let ?st3 = "snd (insert_individually client table_name records_to_insert (0, 0) st2)"
  let ?uouts = "update_outcomes client table_name records_to_update ?st3"
  have counts: "fst (process_chunk client table_name source_name records st) =
                  (succeeded ?outs, conflicts ?outs + succeeded ?uouts)"
    by (rule process_chunk_after_failed_batch [OF le cl ins batch])
  have len: "length records_to_insert + length records_to_update = length records"
    using classify_lengths [of existing_records records] cl by simp
  have p1: "succeeded ?outs + conflicts ?outs + other_errors ?outs = length records_to_insert"
    using outcome_partition [of ?outs] by simp
  have p2: "succeeded ?uouts + length (filter isl ?uouts) = length records_to_update"
    using isl_partition [of ?uouts] by simp
  have total: "succeeded ?outs + (conflicts ?outs + succeeded ?uouts) + 0 + other_errors ?outs +
                 length (filter isl ?uouts) = length records"
    using len p1 p2 by arith
  show ?thesis
    unfolding Let_def upsert_one_chunk [OF ne small cs] counts
    using total by (simp add: final_result_def zero_totals_def)
qed

text \<open>
  Two records, an empty store; the batch insert times out and the single insert of the
  second record fails with "connection reset": one record inserted, none updated, none
  failed, of two.
\<close>

theorem fallback_silent_loss_witness:
  "\<exists>res st'.
     upsert_records_with_composite_key mem_client ''benchmarks'' ''X'' [rec_b, rec_c] 1000
       store_flaky = (Inr res, st') \<and>
     status res = Success \<and>
     records_inserted res = 1 \<and> records_updated res = 0 \<and> records_failed res = 0 \<and>
     records_inserted res + records_updated res + records_failed res < length [rec_b, rec_c]"
proof -
  let ?st1 = "\<lparr>rows = [], next_id = 1,
               faults = [Some ''timeout'', None, Some ''connection reset'']\<rparr>"
  let ?st2 = "\<lparr>rows = [], next_id = 1, faults = [None, Some ''connection reset'']\<rparr>"
  have ne: "[rec_b, rec_c] \<noteq> []" by simp
  have small: "length [rec_b, rec_c] \<le> SAMPLE_SIZE" by (simp add: SAMPLE_SIZE_def)
  have cs: "int (length [rec_b, rec_c]) \<le> 1000" by simp
  have le: "lookup_existing mem_client ''benchmarks'' ''X'' [rec_b, rec_c] store_flaky
              = (Map.empty, ?st1)"
    by (simp add: lookup_existing_def mem_call_def store_flaky_def matching_rows_def
        build_lookup_def)
  have cl: "classify Map.empty [rec_b, rec_c] = ([rec_b, rec_c], [])" by simp
  have batch: "insert_many mem_client ''benchmarks'' [rec_b, rec_c] ?st1
                 = (Inl (StorageError ''timeout''), ?st2)"
    by (simp add: mem_call_def)
  have outs: "individual_outcomes mem_client ''benchmarks'' [rec_b, rec_c] ?st2
                = [Inr (), Inl (StorageError ''connection reset'')]"
    by (simp add: mem_call_def mem_insert_def)
  have nc: "\<not> is_conflict_error (StorageError ''connection reset'')"
    by (simp add: is_conflict_error_def py_lower_def lower_char_def)
  from fallback_silent_loss [OF ne small cs le cl ne batch, unfolded Let_def outs]
  obtain res st' where
    r: "upsert_records_with_composite_key mem_client ''benchmarks'' ''X'' [rec_b, rec_c] 1000
          store_flaky = (Inr res, st')"
    and s: "status res = Success" "records_failed res = 0"
    and i: "records_inserted res = succeeded [Inr (), Inl (StorageError ''connection reset'')]"
    and u: "records_updated res =
              conflicts [Inr (), Inl (StorageError ''connection reset'') :: error + unit] +
              succeeded (update_outcomes mem_client ''benchmarks'' []
                (snd (insert_individually mem_client ''benchmarks'' [rec_b, rec_c] (0, 0) ?st2)))"
    by blast
  from i have i': "records_inserted res = 1" by (simp add: succeeded_def)
  from u nc have u': "records_updated res = 0" by (simp add: succeeded_def conflicts_def)
  from r s i' u' show ?thesis by simp
qed

text \<open>
  C5.  Null-geozip isolation, for a record whose \<open>geozip\<close> is null.  In the existence
  check its lookup key differs from the key of every row whose \<open>geozip\<close> is not null (the
  empty string included), and if the lookup finds the record, the store has returned a row
  with the same key whose \<open>geozip\<close> is null.  In the deduplication the key of a prepared
  record whose \<open>geozip\<close> is not null differs from the record's key; the loop's key itself
  reads a falsy \<open>geozip\<close> as null, which no prepared record has.
\<close>

theorem null_geozip_isolation:
  assumes null: "get record ''geozip'' = VNone"
  shows "(\<forall>existing. get existing ''geozip'' \<noteq> VNone \<longrightarrow> chunk_key existing \<noteq> chunk_key record) \<and>
         (\<forall>client table_name source_name chunk st existing_records st1 row_id.
            lookup_existing client table_name source_name chunk st = (existing_records, st1) \<and>
            existing_records (chunk_key record) = Some row_id \<longrightarrow>
            (\<exists>data. select_existing client table_name source_name
                       (get (hd chunk) ''release_date'')
                       (filter truthy (map (\<lambda>r. get r ''code'') chunk)) st = (Inr data, st1) \<and>
                    (\<exists>existing \<in> set data.
                       chunk_key existing = chunk_key record \<and>
                       get existing ''geozip'' = VNone))) \<and>
         (\<forall>r0 source_name erd has_geozip other.
            prepare_record_for_insertion r0 source_name erd has_geozip = Some other \<and>
            get other ''geozip'' \<noteq> VNone \<longrightarrow> dedup_key other \<noteq> dedup_key record) \<and>
         (\<forall>other. truthy (get other ''geozip'') \<longrightarrow> dedup_key other \<noteq> dedup_key record)"
proof (intro conjI allI impI)
  fix existing :: pydict
  assume "get existing ''geozip'' \<noteq> VNone"
  with null show "chunk_key existing \<noteq> chunk_key record"
    by (auto simp: chunk_key_def)
next
  fix client :: "'a client" and table_name source_name chunk st existing_records st1 row_id
  assume h: "lookup_existing client table_name source_name chunk st = (existing_records, st1) \<and>
            existing_records (chunk_key record) = Some row_id"
  then have h1: "lookup_existing client table_name source_name chunk st = (existing_records, st1)"
    and h2: "existing_records (chunk_key record) = Some row_id" by simp_all
  from lookup_existing_Some [OF h1 h2] obtain data where
    d: "select_existing client table_name source_name (get (hd chunk) ''release_date'')
          (filter truthy (map (\<lambda>r. get r ''code'') chunk)) st = (Inr data, st1)"
    and b: "existing_records = build_lookup data"
    by blast
  from h2 b have "build_lookup data (chunk_key record) = Some row_id" by simp
  from build_lookup_Some [OF this] obtain existing where
    e: "existing \<in> set data" "chunk_key existing = chunk_key record"
    by blast
  then have "get existing ''geozip'' = VNone" using null by (auto simp: chunk_key_def)
  with d e show "\<exists>data. select_existing client table_name source_name
                       (get (hd chunk) ''release_date'')
                       (filter truthy (map (\<lambda>r. get r ''code'') chunk)) st = (Inr data, st1) \<and>
                    (\<exists>existing \<in> set data.
                       chunk_key existing = chunk_key record \<and>
                       get existing ''geozip'' = VNone)"
    by blast
next
  fix r0 source_name erd has_geozip other
  assume p: "prepare_record_for_insertion r0 source_name erd has_geozip = Some other \<and>
            get other ''geozip'' \<noteq> VNone"
  then have "truthy (get other ''geozip'')"
    using prepared_geozip [of r0 source_name erd has_geozip other] by blast
  with p null show "dedup_key other \<noteq> dedup_key record"
    by (auto simp: dedup_key_def py_or_def Let_def)
next
  fix other
  assume "truthy (get other ''geozip'')"
  with null show "dedup_key other \<noteq> dedup_key record"
    by (auto simp: dedup_key_def py_or_def Let_def)
qed

text \<open>
  The store's only row has the second record's source, code and release date and the
  empty string as \<open>geozip\<close>; the lookup for the second record, whose \<open>geozip\<close> is null,
  does not find it.
\<close>

theorem null_geozip_isolation_witness:
  "get rec_b ''geozip'' = VNone \<and>
   get (rec_b(''geozip'' \<mapsto> VStr [], ''id'' \<mapsto> VInt 1)) ''geozip'' = VStr [] \<and>
   chunk_key (rec_b(''geozip'' \<mapsto> VStr [], ''id'' \<mapsto> VInt 1)) \<noteq> chunk_key rec_b \<and>
   fst (lookup_existing mem_client ''benchmarks'' ''X'' [rec_b] store_blank) (chunk_key rec_b)
     = None"
proof -
  have n: "get rec_b ''geozip'' = VNone" by simp
  have g: "get (rec_b(''geozip'' \<mapsto> VStr [], ''id'' \<mapsto> VInt 1)) ''geozip'' = VStr []" by simp
  from null_geozip_isolation [OF n] g
  have k: "chunk_key (rec_b(''geozip'' \<mapsto> VStr [], ''id'' \<mapsto> VInt 1)) \<noteq> chunk_key rec_b"
    by (metis pyval.distinct(1))
  have l: "fst (lookup_existing mem_client ''benchmarks'' ''X'' [rec_b] store_blank)
             (chunk_key rec_b) = None"
    by (simp add: lookup_existing_def mem_call_def store_blank_def matching_rows_def
        build_lookup_def chunk_key_def get_project)
  from n g k l show ?thesis by blast
qed

text \<open>
  C10.  The existence check of a chunk is one query, for the release date of the chunk's
  first record.  With a store that answers the query with rows of that release date
  only, a record of the chunk whose release date differs from the first record's is not
  in the lookup and is classified for insert, whatever the store holds.
\<close>

theorem first_release_date_only:
  assumes honours: "\<forall>rd codes st0 data st0'.
             select_existing client table_name source_name rd codes st0 = (Inr data, st0') \<longrightarrow>
             (\<forall>row \<in> set data. get row ''release_date'' = rd)"
    and mem: "record \<in> set chunk"
    and diff: "get record ''release_date'' \<noteq> get (hd chunk) ''release_date''"
  shows "fst (lookup_existing client table_name source_name chunk st) (chunk_key record) = None \<and>
         record \<in> set (fst (classify (fst (lookup_existing client table_name source_name chunk st))
                               chunk))"
proof -
  obtain ex st1 where le: "lookup_existing client table_name source_name chunk st = (ex, st1)"
    by (cases "lookup_existing client table_name source_name chunk st")
  have none: "ex (chunk_key record) = None"
  proof (rule ccontr)
    assume "ex (chunk_key record) \<noteq> None"
    then obtain v where v: "ex (chunk_key record) = Some v" by auto
    from lookup_existing_Some [OF le v] obtain data where
      d: "select_existing client table_name source_name (get (hd chunk) ''release_date'')
            (filter truthy (map (\<lambda>r. get r ''code'') chunk)) st = (Inr data, st1)"
      and b: "ex = build_lookup data" by blast
    from v b have "build_lookup data (chunk_key record) = Some v" by simp
    from build_lookup_Some [OF this] obtain existing where
      e: "existing \<in> set data" "chunk_key existing = chunk_key record"
      by blast
    from honours d e(1) have "get existing ''release_date'' = get (hd chunk) ''release_date''"
      by blast
    moreover from e(2) have "get existing ''release_date'' = get record ''release_date''"
      by (simp add: chunk_key_def)
    ultimately show False using diff by simp
  qed
  with mem le show ?thesis by (simp add: classify_fst)
qed

text \<open>
  The store holds the second and the third record; in the chunk of the two, the third
  (of release "Feb 2025", the first being of "Jan 2025") is classified for insert
  although a row with its composite key is stored.
\<close>

theorem first_release_date_only_witness:
  "rec_c \<in> set [rec_b, rec_c] \<and>
   get rec_c ''release_date'' \<noteq> get (hd [rec_b, rec_c]) ''release_date'' \<and>
   composite_key rec_c \<in> set (map composite_key (rows store_bc)) \<and>
   rec_c \<in> set (fst (classify (fst (lookup_existing mem_client ''benchmarks'' ''X''
                                        [rec_b, rec_c] store_bc)) [rec_b, rec_c]))"
proof -
  have h: "\<forall>rd codes st0 data st0'.
             select_existing mem_client ''benchmarks'' ''X'' rd codes st0 = (Inr data, st0') \<longrightarrow>
             (\<forall>row \<in> set data. get row ''release_date'' = rd)"
    using mem_client_honours by blast
  have m: "rec_c \<in> set [rec_b, rec_c]" by simp
  have d: "get rec_c ''release_date'' \<noteq> get (hd [rec_b, rec_c]) ''release_date''" by simp
  have k: "composite_key rec_c \<in> set (map composite_key (rows store_bc))"
    by (simp add: store_bc_def composite_key_def)
  from first_release_date_only [OF h m d, of store_bc] m d k show ?thesis by blast
qed

section \<open>Properties of the chunk loop\<close>

lemma length_chunk_outcomes [simp]: "length (chunk_outcomes pc chunks st) = length chunks"
  by (induction chunks arbitrary: st) (auto split: prod.splits)

lemma upt_shift: "[n..<n + Suc k] = n # [Suc n..<Suc n + k]"
  by (simp add: upt_conv_Cons)

lemma process_chunks_totals:
  "fst (process_chunks pc chunks n tot st) =
     tot\<lparr>total_inserted := total_inserted tot + sum_list (map inserted_of (chunk_outcomes pc chunks st)),
         total_updated := total_updated tot + sum_list (map updated_of (chunk_outcomes pc chunks st)),
         total_failed := total_failed tot +
            sum_list (map (length \<circ> fst)
              (filter (isl \<circ> snd) (zip chunks (chunk_outcomes pc chunks st)))),
         failed_chunk_nums := failed_chunk_nums tot @
            map fst (filter (isl \<circ> snd)
              (zip [n..<n + length chunks] (chunk_outcomes pc chunks st)))\<rparr>"
proof (induction chunks arbitrary: n tot st)
  case Nil
  then show ?case by simp
next
  case (Cons chunk rest)
  obtain res st' where pc: "pc chunk st = (res, st')" by (cases "pc chunk st")
  have up: "[n..<n + length (chunk # rest)] = n # [Suc n..<Suc n + length rest]"
    using upt_shift [of n "length rest"] by simp
  show ?case
  proof (cases res)
    case (Inl e)
    with pc show ?thesis
      unfolding up by (simp add: Cons.IH)
  next
    case (Inr p)
    obtain i u where p: "p = (i, u)" by (cases p)
    with pc Inr show ?thesis
      unfolding up by (simp add: Cons.IH)
  qed
qed

lemma split_chunks_nonempty:
  "c \<in> set (split_chunks n xs) \<Longrightarrow> c \<noteq> []"
proof (induction n xs rule: split_chunks.induct)
  case (1 n xs)
  show ?case
  proof (cases "n = 0 \<or> xs = []")
    case True
    then have "split_chunks n xs = []" by (subst split_chunks.simps) simp
    with "1.prems" show ?thesis by simp
  next
    case False
    with "1.prems" have "c = take n xs \<or> c \<in> set (split_chunks n (drop n xs))"
      by (simp add: split_chunks.simps [of n xs])
    with False "1.IH" show ?thesis by auto
  qed
qed

lemma concat_split_chunks: "0 < n \<Longrightarrow> concat (split_chunks n xs) = xs"
proof (induction n xs rule: split_chunks.induct)
  case (1 n xs)
  show ?case
  proof (cases "xs = []")
    case True
    then have "split_chunks n xs = []" by (subst split_chunks.simps) simp
    with True show ?thesis by simp
  next
    case False
    with "1.prems" have "split_chunks n xs = take n xs # split_chunks n (drop n xs)"
      by (simp add: split_chunks.simps [of n xs])
    with False "1.prems" "1.IH" show ?thesis by simp
  qed
qed

lemma failed_sum_zero:
  assumes "\<forall>c \<in> set chunks. c \<noteq> []" and "length outs = length chunks"
  shows "sum_list (map (length \<circ> fst) (filter (isl \<circ> snd) (zip chunks outs))) = 0
           \<longleftrightarrow> filter (isl \<circ> snd) (zip chunks outs) = []"
proof
  assume z: "sum_list (map (length \<circ> fst) (filter (isl \<circ> snd) (zip chunks outs))) = 0"
  show "filter (isl \<circ> snd) (zip chunks outs) = []"
  proof (rule ccontr)
    assume "filter (isl \<circ> snd) (zip chunks outs) \<noteq> []"
    then obtain p where p: "p \<in> set (filter (isl \<circ> snd) (zip chunks outs))"
      by (cases "filter (isl \<circ> snd) (zip chunks outs)") auto
    then have "p \<in> set (zip chunks outs)" by simp
    then have "fst p \<in> set chunks" by (metis prod.collapse set_zip_leftD)
    with assms have "0 < length (fst p)" by auto
    moreover from z p have "(length \<circ> fst) p = 0"
      unfolding sum_list_eq_0_iff by (metis (no_types, lifting) image_eqI set_map)
    ultimately show False by simp
  qed
next
  assume "filter (isl \<circ> snd) (zip chunks outs) = []"
  then show "sum_list (map (length \<circ> fst) (filter (isl \<circ> snd) (zip chunks outs))) = 0" by simp
qed

lemma filter_zip_snd_empty:
  assumes "length zs = length outs"
  shows "filter (P \<circ> snd) (zip zs outs) = [] \<longleftrightarrow> (\<forall>out \<in> set outs. \<not> P out)"
proof -
  from assms have "snd ` set (zip zs outs) = set outs"
    by (metis map_snd_zip set_map)
  moreover have "filter (P \<circ> snd) (zip zs outs) = [] \<longleftrightarrow>
                   (\<forall>out \<in> snd ` set (zip zs outs). \<not> P out)"
    by (auto simp: filter_empty_conv)
  ultimately show ?thesis by simp
qed

lemma upsert_with_reaches_loop:
  assumes run: "upsert_with pc chk table_name records chunk_size st = (Inr res, st')"
    and loop: "status res \<noteq> NoRecords" "status res \<noteq> AlreadySynced"
  shows "\<exists>sample_inserted sample_updated st0.
           run_chunks pc table_name records
             (if SAMPLE_SIZE < length records then SAMPLE_SIZE else 0) chunk_size
             (zero_totals\<lparr>total_inserted := sample_inserted, total_updated := sample_updated\<rparr>)
             st0 = (Inr res, st') \<and>
           (\<not> SAMPLE_SIZE < length records \<longrightarrow>
              sample_inserted = 0 \<and> sample_updated = 0 \<and> st0 = st)"
proof (cases "records = []")
  case True
  with run loop show ?thesis by (auto simp: upsert_with_def no_records_result_def)
next
  case ne: False
  show ?thesis
  proof (cases "SAMPLE_SIZE < length records")
    case False
    with ne run have "run_chunks pc table_name records 0 chunk_size zero_totals st = (Inr res, st')"
      by (simp add: upsert_with_def)
    then have "run_chunks pc table_name records 0 chunk_size
                 (zero_totals\<lparr>total_inserted := 0, total_updated := 0\<rparr>) st = (Inr res, st')"
      by (simp add: zero_totals_def)
    with False show ?thesis by auto
  next
    case True
    obtain r st1 where pc: "pc (take SAMPLE_SIZE records) st = (r, st1)"
      by (cases "pc (take SAMPLE_SIZE records) st")
    show ?thesis
    proof (cases r)
      case (Inl e)
      with ne True pc run show ?thesis by (simp add: upsert_with_def)
    next
      case (Inr p)
      obtain si su where p: "p = (si, su)" by (cases p)
      obtain b st2 where chk: "chk records st1 = (b, st2)" by (cases "chk records st1")
      let ?tot = "zero_totals\<lparr>total_inserted := si, total_updated := su\<rparr>"
      have "run_chunks pc table_name records SAMPLE_SIZE chunk_size ?tot st1 = (Inr res, st') \<or>
            run_chunks pc table_name records SAMPLE_SIZE chunk_size ?tot st2 = (Inr res, st')"
        using ne True pc Inr p chk run loop
        by (cases b) (auto simp: upsert_with_def Let_def already_synced_result_def
              split: if_splits)
      with True show ?thesis by auto
    qed
  qed
qed

lemma run_chunks_positive:
  assumes "0 < chunk_size"
  shows "run_chunks pc table_name records start_index chunk_size tot st =
           (Inr (final_result table_name
              (fst (process_chunks pc
                 (split_chunks (nat chunk_size) (drop start_index records)) 1 tot st))),
            snd (process_chunks pc
                 (split_chunks (nat chunk_size) (drop start_index records)) 1 tot st))"
  using assms by (simp add: run_chunks_def Let_def split: prod.splits)

text \<open>
  C4.  Partial failure containment, for every run that gets to the chunk loop (a run that
  ends with a result other than \<^verbatim>\<open>no_records\<close> and \<^verbatim>\<open>already_synced\<close>), a positive
  chunk size and any chunk processor.  The chunks are the records after the sample, and
  each gets its answer in turn, a failed chunk not stopping the ones after it.  The
  result lists the numbers of the chunks whose processing raised, counts the records of
  exactly those chunks as failed, and adds up the inserted and updated counts of all the
  others (after the sample's); the status is \<^verbatim>\<open>success\<close> exactly when no chunk raised and
  \<^verbatim>\<open>partial_success\<close> exactly when at least one did.
\<close>

theorem partial_failure_containment:
  assumes pos: "0 < chunk_size"
    and run: "upsert_with pc chk table_name records chunk_size st = (Inr res, st')"
    and loop: "status res \<noteq> NoRecords" "status res \<noteq> AlreadySynced"
  shows "\<exists>sample_inserted sample_updated st0.
           (let start_index = (if SAMPLE_SIZE < length records then SAMPLE_SIZE else 0);
                chunks = split_chunks (nat chunk_size) (drop start_index records);
                outs = chunk_outcomes pc chunks st0
            in concat chunks = drop start_index records \<and>
               length outs = length chunks \<and>
               failed_chunks res =
                 map fst (filter (isl \<circ> snd) (zip [1..<1 + length chunks] outs)) \<and>
               records_failed res =
                 sum_list (map (length \<circ> fst) (filter (isl \<circ> snd) (zip chunks outs))) \<and>
               records_inserted res = sample_inserted + sum_list (map inserted_of outs) \<and>
               records_updated res = sample_updated + sum_list (map updated_of outs) \<and>
               (status res = Success \<longleftrightarrow> (\<forall>out \<in> set outs. \<not> isl out)) \<and>
               (status res = PartialSuccess \<longleftrightarrow> (\<exists>out \<in> set outs. isl out))) \<and>
           (\<not> SAMPLE_SIZE < length records \<longrightarrow>
              sample_inserted = 0 \<and> sample_updated = 0 \<and> st0 = st)"
proof -
  let ?start = "if SAMPLE_SIZE < length records then SAMPLE_SIZE else 0"
  let ?chunks = "split_chunks (nat chunk_size) (drop ?start records)"
  from upsert_with_reaches_loop [OF run loop] obtain si su st0 where
    rc: "run_chunks pc table_name records ?start chunk_size
           (zero_totals\<lparr>total_inserted := si, total_updated := su\<rparr>) st0 = (Inr res, st')"
    and small: "\<not> SAMPLE_SIZE < length records \<longrightarrow> si = 0 \<and> su = 0 \<and> st0 = st"
    by blast
  let ?tot = "zero_totals\<lparr>total_inserted := si, total_updated := su\<rparr>"
  let ?outs = "chunk_outcomes pc ?chunks st0"
  have res: "res = final_result table_name (fst (process_chunks pc ?chunks 1 ?tot st0))"
    using rc run_chunks_positive [OF pos, of pc table_name records ?start ?tot st0] by simp
  note tt = process_chunks_totals [of pc ?chunks 1 ?tot st0]
  have cc: "concat ?chunks = drop ?start records"
    using pos by (simp add: concat_split_chunks)
  have fc: "failed_chunks res = map fst (filter (isl \<circ> snd) (zip [1..<1 + length ?chunks] ?outs))"
    unfolding res tt by (simp add: final_result_def zero_totals_def)
  have rf: "records_failed res =
              sum_list (map (length \<circ> fst) (filter (isl \<circ> snd) (zip ?chunks ?outs)))"
    unfolding res tt by (simp add: final_result_def zero_totals_def)
  have ri: "records_inserted res = si + sum_list (map inserted_of ?outs)"
    unfolding res tt by (simp add: final_result_def zero_totals_def)
  have ru: "records_updated res = su + sum_list (map updated_of ?outs)"
    unfolding res tt by (simp add: final_result_def zero_totals_def)
  have st: "status res = (if records_failed res = 0 then Success else PartialSuccess)"
    unfolding res by (simp add: final_result_def)
  have nonempty: "\<forall>c \<in> set ?chunks. c \<noteq> []"
    using split_chunks_nonempty by blast
  have zero: "records_failed res = 0 \<longleftrightarrow> (\<forall>out \<in> set ?outs. \<not> isl out)"
    unfolding rf
    using failed_sum_zero [OF nonempty, of ?outs]
      filter_zip_snd_empty [of ?chunks ?outs isl]
    by simp
  have s1: "status res = Success \<longleftrightarrow> (\<forall>out \<in> set ?outs. \<not> isl out)"
    using st zero by auto
  have s2: "status res = PartialSuccess \<longleftrightarrow> (\<exists>out \<in> set ?outs. isl out)"
    using st zero by auto
  show ?thesis
    unfolding Let_def
    using cc fc rf ri ru s1 s2 small by (intro exI [of _ si] exI [of _ su] exI [of _ st0]) simp
qed

text \<open>
  The scenario of the specification: five chunks of one record, the second raises.  The
  run reports chunk 2 and one record as failed, the four other records as inserted, and
  \<^verbatim>\<open>partial_success\<close>.
\<close>

lemma five_chunks:
  "split_chunks (Suc 0) [a, b, c, d, e] = [[a], [b], [c], [d], [e]]"
  by (simp add: split_chunks.simps)

lemma second_call_fails_run: "upsert_with second_call_fails no_check ''benchmarks''
       [rec_a, rec_b, rec_c, rec_a, rec_c] 1 0 = run_chunks second_call_fails ''benchmarks'' [rec_a, rec_b, rec_c, rec_a, rec_c] 0 1 zero_totals 0"
  by (simp add: upsert_with_def SAMPLE_SIZE_def)

lemma second_call_fails_chunks: "process_chunks second_call_fails [[a], [b], [c], [d], [e]] (Suc 0) zero_totals 0
   = (\<lparr>total_inserted = 4, total_updated = 0, total_failed = 1, failed_chunk_nums = [Suc (Suc 0)]\<rparr>, 5)"
  by (simp add: second_call_fails_def zero_totals_def)

lemma up5: "[1..<1 + length [[a], [b], [c], [d], [e]]] = [1, 2, 3, 4, 5::nat]"
  by (simp add: upt_rec)

theorem partial_failure_containment_witness:
  "\<exists>res st'.
     upsert_with second_call_fails no_check ''benchmarks''
       [rec_a, rec_b, rec_c, rec_a, rec_c] 1 0 = (Inr res, st') \<and>
     status res = PartialSuccess \<and> failed_chunks res = [2] \<and> records_failed res = 1 \<and>
     records_inserted res = 4 \<and> records_updated res = 0"
proof -
  let ?records = "[rec_a, rec_b, rec_c, rec_a, rec_c]"
  let ?res = "final_result ''benchmarks''
                \<lparr>total_inserted = 4, total_updated = 0, total_failed = 1,
                   failed_chunk_nums = [Suc (Suc 0)]\<rparr>"
  have run: "upsert_with second_call_fails no_check ''benchmarks'' ?records 1 0 = (Inr ?res, 5)"
    unfolding second_call_fails_run by (simp add: run_chunks_def five_chunks second_call_fails_chunks del: process_chunks.simps)
  have st: "status ?res = PartialSuccess" by (simp add: final_result_def)
  have pos: "(0::int) < 1" by simp
  have l1: "status ?res \<noteq> NoRecords" and l2: "status ?res \<noteq> AlreadySynced"
    by (simp_all add: final_result_def)
  have small: "\<not> SAMPLE_SIZE < length ?records" by (simp add: SAMPLE_SIZE_def)
  have outs: "chunk_outcomes second_call_fails [[rec_a], [rec_b], [rec_c], [rec_a], [rec_c]] 0
                = [Inr (1, 0), Inl (StorageError ''write failed''), Inr (1, 0), Inr (1, 0),
                   Inr (1, 0)]"
    by (simp add: second_call_fails_def)
  have sc: "split_chunks (nat 1) (drop 0 ?records) = [[rec_a], [rec_b], [rec_c], [rec_a], [rec_c]]"
    by (simp add: five_chunks)
  from partial_failure_containment [OF pos run l1 l2] small
  obtain si su st0 where
    h: "failed_chunks ?res =
          map fst (filter (isl \<circ> snd)
            (zip [1..<1 + length [[rec_a], [rec_b], [rec_c], [rec_a], [rec_c]]]
               (chunk_outcomes second_call_fails
                  [[rec_a], [rec_b], [rec_c], [rec_a], [rec_c]] st0)))"
       "records_failed ?res =
          sum_list (map (length \<circ> fst) (filter (isl \<circ> snd)
            (zip [[rec_a], [rec_b], [rec_c], [rec_a], [rec_c]]
               (chunk_outcomes second_call_fails
                  [[rec_a], [rec_b], [rec_c], [rec_a], [rec_c]] st0))))"
       "records_inserted ?res = si + sum_list (map inserted_of
               (chunk_outcomes second_call_fails
                  [[rec_a], [rec_b], [rec_c], [rec_a], [rec_c]] st0))"
       "records_updated ?res = su + sum_list (map updated_of
               (chunk_outcomes second_call_fails
                  [[rec_a], [rec_b], [rec_c], [rec_a], [rec_c]] st0))"
    and z: "si = 0" "su = 0" "st0 = 0"
    unfolding Let_def if_not_P [OF small] sc by blast
  from h(1) have f: "failed_chunks ?res = [2]" unfolding z outs up5 by simp
  from h(2) have r: "records_failed ?res = 1" unfolding z outs by simp
  from h(3) have i: "records_inserted ?res = 4" unfolding z outs by simp
  from h(4) have u: "records_updated ?res = 0" unfolding z outs by simp
  from run st f r i u show ?thesis by blast
qed

section \<open>Idempotence on the in-memory store\<close>

subsection \<open>The store without failures\<close>

lemma mem_call_clean: "faults st = [] \<Longrightarrow> mem_call f st = f st"
  by (simp add: mem_call_def)

lemma chunk_key_project [simp]:
  "chunk_key (project [''id'', ''code'', ''source'', ''release_date'', ''geozip''] row) =
     chunk_key row"
  by (simp add: chunk_key_def get_project)

lemma get_id_project [simp]:
  "get (project [''id'', ''code'', ''source'', ''release_date'', ''geozip''] row) ''id'' =
     get row ''id''"
  by (simp add: get_project)

lemma chunk_key_id [simp]: "chunk_key (r(''id'' \<mapsto> v)) = chunk_key r"
  by (simp add: chunk_key_def)

lemma string_codes_keys:
  assumes "is_string (get a ''code'')" "is_string (get b ''code'')"
    and "chunk_key a = chunk_key b"
  shows "composite_key a = composite_key b"
proof -
  from assms(1) obtain x where x: "get a ''code'' = VStr x" by (cases "get a ''code''") auto
  from assms(2) obtain y where y: "get b ''code'' = VStr y" by (cases "get b ''code''") auto
  from assms(3) x y show ?thesis by (simp add: chunk_key_def composite_key_def)
qed

lemma mem_lookup_existing:
  assumes clean: "faults st = []"
  shows "snd (lookup_existing mem_client table_name source_name chunk st) = st"
    and "fst (lookup_existing mem_client table_name source_name chunk st) k = Some v \<Longrightarrow>
           \<exists>row \<in> set (rows st). chunk_key row = k \<and> v = get row ''id''"
proof -
  show "snd (lookup_existing mem_client table_name source_name chunk st) = st"
    using clean by (simp add: lookup_existing_def Let_def mem_call_clean)
next
  assume k: "fst (lookup_existing mem_client table_name source_name chunk st) k = Some v"
  obtain ex st1 where le: "lookup_existing mem_client table_name source_name chunk st = (ex, st1)"
    by (cases "lookup_existing mem_client table_name source_name chunk st")
  with k have exk: "ex k = Some v" by simp
  from lookup_existing_Some [OF le exk] obtain data where
    d: "select_existing mem_client table_name source_name (get (hd chunk) ''release_date'')
          (filter truthy (map (\<lambda>r. get r ''code'') chunk)) st = (Inr data, st1)"
    and b: "ex = build_lookup data" by blast
  from exk b have "build_lookup data k = Some v" by simp
  from build_lookup_Some [OF this] obtain existing where
    e: "existing \<in> set data" "chunk_key existing = k" "v = get existing ''id''" by blast
  from d clean e(1) obtain row where
    r: "row \<in> set (rows st)"
       "existing = project [''id'', ''code'', ''source'', ''release_date'', ''geozip''] row"
    by (auto simp: mem_call_clean matching_rows_def)
  with e show "\<exists>row \<in> set (rows st). chunk_key row = k \<and> v = get row ''id''"
    by (intro bexI [of _ row]) simp_all
qed

lemma string_codes_append [simp]:
  "string_codes (xs @ ys) \<longleftrightarrow> string_codes xs \<and> string_codes ys"
  by (simp add: string_codes_def)

lemma string_codes_mem: "string_codes rs \<Longrightarrow> r \<in> set rs \<Longrightarrow> is_string (get r ''code'')"
  by (simp add: string_codes_def list_all_iff)

lemma keys_assign_ids [simp]: "map composite_key (assign_ids n rs) = map composite_key rs"
  by (induction rs arbitrary: n) auto

lemma length_assign_ids [simp]: "length (assign_ids n rs) = length rs"
  by (induction rs arbitrary: n) auto

lemma string_codes_assign_ids [simp]: "string_codes (assign_ids n rs) = string_codes rs"
  by (induction rs arbitrary: n) (auto simp: string_codes_def)

lemma assign_ids_append:
  "assign_ids n (xs @ ys) = assign_ids n xs @ assign_ids (n + int (length xs)) ys"
  by (induction xs arbitrary: n) (auto simp: algebra_simps)

lemma ids_assign_ids:
  "map (\<lambda>row. get row ''id'') (assign_ids n rs) = map (\<lambda>k. VInt (n + int k)) [0..<length rs]"
proof (induction rs arbitrary: n)
  case Nil
  then show ?case by simp
next
  case (Cons r rs)
  have "[0..<length (r # rs)] = 0 # map Suc [0..<length rs]"
    by (simp add: upt_conv_Cons map_Suc_upt del: upt_Suc)
  then show ?case using Cons [of "n + 1"] by (simp add: o_def algebra_simps del: upt_Suc)
qed

lemma distinct_ids_assign_ids:
  "distinct (map (\<lambda>row. get row ''id'') (assign_ids n rs))"
  unfolding ids_assign_ids by (auto simp: distinct_map inj_on_def)

lemma stored_assign_ids:
  "r \<in> set rs \<Longrightarrow> \<exists>i. r(''id'' \<mapsto> i) \<in> set (assign_ids n rs)"
  by (induction rs arbitrary: n) auto

subsection \<open>One chunk against a fresh store and against a synced store\<close>

lemma classify_pair: "classify ex chunk = (fst (classify ex chunk), snd (classify ex chunk))"
  by simp

lemma fresh_lookup_none:
  assumes fr: "fresh_for st (chunk @ rest)" and sc: "string_codes chunk" and r: "r \<in> set chunk"
  shows "fst (lookup_existing mem_client table_name source_name chunk st) (chunk_key r) = None"
proof (rule ccontr)
  assume "fst (lookup_existing mem_client table_name source_name chunk st) (chunk_key r) \<noteq> None"
  then obtain v where
    v: "fst (lookup_existing mem_client table_name source_name chunk st) (chunk_key r) = Some v"
    by auto
  from fr have clean: "faults st = []" by (simp add: fresh_for_def)
  from mem_lookup_existing(2) [OF clean v] obtain row where
    row: "row \<in> set (rows st)" "chunk_key row = chunk_key r" by blast
  from fr have scr: "string_codes (rows st)" by (simp add: fresh_for_def)
  have "is_string (get row ''code'')" by (rule string_codes_mem [OF scr row(1)])
  moreover from sc r have "is_string (get r ''code'')" by (rule string_codes_mem)
  ultimately have ck: "composite_key row = composite_key r"
    using row(2) by (rule string_codes_keys)
  from row(1) have "composite_key row \<in> composite_key ` set (rows st)" by (rule imageI)
  then have "composite_key r \<in> set (map composite_key (rows st))"
    unfolding ck by simp
  moreover from fr r have "composite_key r \<notin> set (map composite_key (rows st))"
    unfolding fresh_for_def by simp
  ultimately show False by simp
qed

lemma fresh_chunk:
  assumes fr: "fresh_for st (chunk @ rest)"
    and dk: "distinct (map composite_key (chunk @ rest))"
    and sc: "string_codes chunk"
  shows "process_chunk mem_client table_name source_name chunk st =
           ((length chunk, 0),
            st\<lparr>rows := rows st @ assign_ids (next_id st) chunk,
               next_id := next_id st + int (length chunk)\<rparr>)"
proof -
  let ?le = "lookup_existing mem_client table_name source_name chunk st"
  from fr have clean: "faults st = []" by (simp add: fresh_for_def)
  have le: "?le = (fst ?le, st)"
    using mem_lookup_existing(1) [OF clean, of table_name source_name chunk]
    by (metis prod.collapse)
  have none: "\<And>r. r \<in> set chunk \<Longrightarrow> fst ?le (chunk_key r) = None"
    using fresh_lookup_none [OF fr sc] by blast
  have f1: "fst (classify (fst ?le) chunk) = chunk"
    unfolding classify_fst using none by (simp add: filter_id_conv)
  have f2: "snd (classify (fst ?le) chunk) = []"
    unfolding classify_snd using none by (simp add: filter_empty_conv)
  have cl: "classify (fst ?le) chunk = (chunk, [])"
    using classify_pair [of "fst ?le" chunk] f1 f2 by simp
  have nocol: "\<not> list_ex (\<lambda>r. composite_key r \<in> set (map composite_key (rows st))) chunk"
    using fr by (auto simp: fresh_for_def list_ex_iff)
  have dc: "distinct (map composite_key chunk)" using dk by simp
  have st: "insert_stage mem_client table_name chunk st =
              ((length chunk, 0),
               st\<lparr>rows := rows st @ assign_ids (next_id st) chunk,
                  next_id := next_id st + int (length chunk)\<rparr>)"
  proof (cases "chunk = []")
    case True
    then show ?thesis by (simp add: insert_stage_def)
  next
    case False
    then show ?thesis
      using clean nocol dc by (simp add: insert_stage_def mem_call_clean mem_insert_def)
  qed
  show ?thesis
    unfolding process_chunk_unfold [OF le cl st] by simp
qed

lemma fresh_after_chunk:
  assumes fr: "fresh_for st (chunk @ rest)"
    and dk: "distinct (map composite_key (chunk @ rest))"
    and sc: "string_codes chunk"
  shows "fresh_for (st\<lparr>rows := rows st @ assign_ids (next_id st) chunk,
                       next_id := next_id st + int (length chunk)\<rparr>) rest"
  using assms by (auto simp: fresh_for_def)

lemma conflict_individually:
  assumes "faults st = []"
    and "\<forall>r \<in> set xs. composite_key r \<in> set (map composite_key (rows st))"
  shows "insert_individually mem_client table_name xs (i, u) st = ((i, u + length xs), st)"
  using assms
proof (induction xs arbitrary: u)
  case Nil
  then show ?case by simp
next
  case (Cons r xs)
  then have "insert_one mem_client table_name r st = (Inl (StorageError conflict_message), st)"
    by (simp add: mem_call_clean mem_insert_def)
  with Cons show ?case by simp
qed

lemma synced_insert_stage:
  assumes "faults st = []"
    and "\<forall>r \<in> set xs. composite_key r \<in> set (map composite_key (rows st))"
  shows "insert_stage mem_client table_name xs st = ((0, length xs), st)"
proof (cases "xs = []")
  case True
  then show ?thesis by (simp add: insert_stage_def)
next
  case False
  with assms(2) have "list_ex (\<lambda>r. composite_key r \<in> set (map composite_key (rows st))) xs"
    by (cases xs) (auto simp: list_ex_iff)
  with assms(1) have "insert_many mem_client table_name xs st =
                        (Inl (StorageError conflict_message), st)"
    by (simp add: mem_call_clean mem_insert_def)
  with False show ?thesis
    using conflict_individually [OF assms, of table_name 0 0]
    by (simp add: insert_stage_def)
qed

lemma map_add_same: "(r(''id'' \<mapsto> i)) ++ (r(''id'' := None)) = r(''id'' \<mapsto> i)"
  by (rule ext) (simp add: map_add_def split: option.splits)

lemma distinct_map_eq:
  "distinct (map f xs) \<Longrightarrow> x \<in> set xs \<Longrightarrow> y \<in> set xs \<Longrightarrow> f x = f y \<Longrightarrow> x = y"
  by (auto simp: distinct_map inj_on_def)

lemma update_identity:
  assumes sy: "synced_with st recs" and r: "r \<in> set recs"
    and row: "row \<in> set (rows st)" "chunk_key row = chunk_key r"
  shows "mem_update ((r(''id'' \<mapsto> get row ''id''))(''id'' := None)) (get row ''id'') st
           = (Inr (), st)"
proof -
  from sy r obtain i where i: "r(''id'' \<mapsto> i) \<in> set (rows st)"
    by (auto simp: synced_with_def)
  from sy have scr: "string_codes (rows st)"
    and dk: "distinct (map composite_key (rows st))"
    and di: "distinct (map (\<lambda>row. get row ''id'') (rows st))"
    by (simp_all add: synced_with_def)
  have "composite_key row = composite_key (r(''id'' \<mapsto> i))"
    using string_codes_mem [OF scr row(1)] string_codes_mem [OF scr i] row(2)
    by (intro string_codes_keys) simp_all
  then have roweq: "row = r(''id'' \<mapsto> i)"
    using distinct_map_eq [OF dk row(1) i] by simp
  then have gid: "get row ''id'' = i" by simp
  have payload: "(r(''id'' \<mapsto> get row ''id''))(''id'' := None) = r(''id'' := None)" by simp
  have same: "map (\<lambda>row'. if get row' ''id'' = i then row' ++ (r(''id'' := None)) else row')
                (rows st) = rows st"
  proof (rule map_idI)
    fix row' assume m: "row' \<in> set (rows st)"
    show "(if get row' ''id'' = i then row' ++ (r(''id'' := None)) else row') = row'"
    proof (cases "get row' ''id'' = i")
      case True
      with gid have "get row' ''id'' = get row ''id''" by simp
      with di m row(1) have "row' = row"
        using distinct_map_eq [of "\<lambda>row. get row ''id''" "rows st" row' row] by simp
      with roweq True show ?thesis by (simp add: map_add_same)
    next
      case False
      then show ?thesis by simp
    qed
  qed
  show ?thesis
    unfolding payload gid using same dk by (simp add: mem_update_def Let_def)
qed

lemma synced_update_stage:
  assumes sy: "synced_with st recs"
    and ups: "\<forall>r' \<in> set upd. \<exists>r row. r \<in> set recs \<and> row \<in> set (rows st) \<and>
                chunk_key row = chunk_key r \<and> r' = r(''id'' \<mapsto> get row ''id'')"
  shows "update_stage mem_client table_name upd u st = (u + length upd, st)"
  using ups
proof (induction upd arbitrary: u)
  case Nil
  then show ?case by simp
next
  case (Cons r' upd)
  have "r' \<in> set (r' # upd)" by simp
  from Cons.prems [rule_format, OF this] obtain r row where
    rr: "r \<in> set recs" "row \<in> set (rows st)" "chunk_key row = chunk_key r"
        "r' = r(''id'' \<mapsto> get row ''id'')"
    by blast
  from Cons.prems have rest: "\<forall>r' \<in> set upd. \<exists>r row. r \<in> set recs \<and> row \<in> set (rows st) \<and>
                chunk_key row = chunk_key r \<and> r' = r(''id'' \<mapsto> get row ''id'')"
    by (meson list.set_intros(2))
  from sy have clean: "faults st = []" by (simp add: synced_with_def)
  have "update_by_id mem_client table_name (r'(''id'' := None)) (get r' ''id'') st = (Inr (), st)"
    using update_identity [OF sy rr(1) rr(2) rr(3)] clean
    unfolding rr(4) by (simp add: mem_call_clean)
  with Cons.IH [OF rest] show ?case by simp
qed

lemma synced_chunk:
  assumes sy: "synced_with st recs" and sub: "set chunk \<subseteq> set recs"
  shows "process_chunk mem_client table_name source_name chunk st = ((0, length chunk), st)"
proof -
  let ?le = "lookup_existing mem_client table_name source_name chunk st"
  let ?ins = "fst (classify (fst ?le) chunk)"
  let ?upd = "snd (classify (fst ?le) chunk)"
  from sy have clean: "faults st = []" by (simp add: synced_with_def)
  have le: "?le = (fst ?le, st)"
    using mem_lookup_existing(1) [OF clean, of table_name source_name chunk]
    by (metis prod.collapse)
  have cl: "classify (fst ?le) chunk = (?ins, ?upd)" by simp
  have stored: "\<forall>r \<in> set ?ins. composite_key r \<in> set (map composite_key (rows st))"
  proof
    fix r assume "r \<in> set ?ins"
    then have "r \<in> set recs" using sub by (auto simp: classify_fst)
    with sy obtain i where "r(''id'' \<mapsto> i) \<in> set (rows st)" by (auto simp: synced_with_def)
    then have "composite_key (r(''id'' \<mapsto> i)) \<in> composite_key ` set (rows st)"
      by (rule imageI)
    then show "composite_key r \<in> set (map composite_key (rows st))" by simp
  qed
  have ist: "insert_stage mem_client table_name ?ins st = ((0, length ?ins), st)"
    by (rule synced_insert_stage [OF clean stored])
  have ups: "\<forall>r' \<in> set ?upd. \<exists>r row. r \<in> set recs \<and> row \<in> set (rows st) \<and>
                chunk_key row = chunk_key r \<and> r' = r(''id'' \<mapsto> get row ''id'')"
  proof
    fix r' assume "r' \<in> set ?upd"
    then obtain r where
      r: "r \<in> set chunk" "fst ?le (chunk_key r) \<noteq> None"
         "r' = r(''id'' \<mapsto> the (fst ?le (chunk_key r)))"
      by (auto simp: classify_snd)
    then obtain v where v: "fst ?le (chunk_key r) = Some v" by auto
    from mem_lookup_existing(2) [OF clean v] obtain row where
      row: "row \<in> set (rows st)" "chunk_key row = chunk_key r" "v = get row ''id''" by blast
    with r v sub show "\<exists>r row. r \<in> set recs \<and> row \<in> set (rows st) \<and>
                chunk_key row = chunk_key r \<and> r' = r(''id'' \<mapsto> get row ''id'')"
      by (intro exI [of _ r] exI [of _ row]) auto
  qed
  have ust: "update_stage mem_client table_name ?upd (length ?ins) st =
               (length ?ins + length ?upd, st)"
    by (rule synced_update_stage [OF sy ups])
  show ?thesis
    unfolding process_chunk_unfold [OF le cl ist] ust
    using classify_lengths [of "fst ?le" chunk] by simp
qed

subsection \<open>The two runs\<close>

lemma fresh_chunks:
  assumes "fresh_for st (concat cs)"
    and "distinct (map composite_key (concat cs))"
    and "string_codes (concat cs)"
  shows "process_chunks (chunk_processor mem_client table_name source_name) cs n tot st =
           (tot\<lparr>total_inserted := total_inserted tot + length (concat cs)\<rparr>,
            st\<lparr>rows := rows st @ assign_ids (next_id st) (concat cs),
               next_id := next_id st + int (length (concat cs))\<rparr>)"
  using assms
proof (induction cs arbitrary: n tot st)
  case Nil
  then show ?case by simp
next
  case (Cons c cs)
  let ?st1 = "st\<lparr>rows := rows st @ assign_ids (next_id st) c,
                  next_id := next_id st + int (length c)\<rparr>"
  from Cons.prems have fr: "fresh_for st (c @ concat cs)"
    and dk: "distinct (map composite_key (c @ concat cs))"
    and sc: "string_codes c" and scr: "string_codes (concat cs)"
    by simp_all
  have pc: "chunk_processor mem_client table_name source_name c st = (Inr (length c, 0), ?st1)"
    using fresh_chunk [OF fr dk sc] by (simp add: chunk_processor_def)
  have fr1: "fresh_for ?st1 (concat cs)" by (rule fresh_after_chunk [OF fr dk sc])
  have dk1: "distinct (map composite_key (concat cs))" using dk by simp
  note ih = Cons.IH [OF fr1 dk1 scr]
  show ?case
    using pc by (simp add: ih assign_ids_append algebra_simps)
qed

lemma synced_chunks:
  assumes sy: "synced_with st recs" and sub: "set (concat cs) \<subseteq> set recs"
  shows "process_chunks (chunk_processor mem_client table_name source_name) cs n tot st =
           (tot\<lparr>total_updated := total_updated tot + length (concat cs)\<rparr>, st)"
  using sub
proof (induction cs arbitrary: n tot)
  case Nil
  then show ?case by simp
next
  case (Cons c cs)
  then have s1: "set c \<subseteq> set recs" and s2: "set (concat cs) \<subseteq> set recs" by auto
  have pc: "chunk_processor mem_client table_name source_name c st = (Inr (0, length c), st)"
    using synced_chunk [OF sy s1] by (simp add: chunk_processor_def)
  show ?case
    using pc by (simp add: Cons.IH [OF s2] algebra_simps)
qed

lemma clean_count_existing:
  assumes "faults st = []"
  shows "\<exists>total. count_existing mem_client table_name source_name ds tot st = (Inr total, st)"
  using assms
proof (induction ds arbitrary: tot)
  case Nil
  then show ?case by simp
next
  case (Cons d ds)
  then show ?case by (simp add: mem_call_clean)
qed

lemma clean_check_all:
  assumes "faults st = []"
  shows "snd (check_all_records_exist mem_client table_name source_name recs st) = st"
proof -
  from clean_count_existing [OF assms, of table_name source_name "release_dates_of recs" 0]
  obtain total where
    "count_existing mem_client table_name source_name (release_dates_of recs) 0 st
       = (Inr total, st)" by blast
  then show ?thesis by (simp add: check_all_records_exist_def Let_def)
qed

lemma fresh_empty_store: "fresh_for empty_store recs"
  by (simp add: fresh_for_def empty_store_def string_codes_def)

lemma synced_stored:
  assumes "distinct (map composite_key recs)" and "string_codes recs"
  shows "synced_with (stored recs) recs"
  using assms
  by (simp add: synced_with_def stored_def distinct_ids_assign_ids stored_assign_ids)

lemma first_run:
  assumes pos: "0 < chunk_size"
    and dk: "distinct (map composite_key records)"
    and sc: "string_codes records"
  shows "\<exists>res. upsert_records_with_composite_key mem_client table_name source_name records
                 chunk_size empty_store = (Inr res, stored records) \<and>
               records_inserted res = length records \<and> records_updated res = 0 \<and>
               records_failed res = 0"
proof (cases "records = []")
  case True
  then show ?thesis
    by (simp add: upsert_records_with_composite_key_def upsert_with_def no_records_result_def
        stored_def empty_store_def)
next
  case ne: False
  let ?pc = "chunk_processor mem_client table_name source_name"
  show ?thesis
  proof (cases "SAMPLE_SIZE < length records")
    case False
    let ?cs = "split_chunks (nat chunk_size) (drop 0 records)"
    let ?tot' = "zero_totals\<lparr>total_inserted := total_inserted zero_totals + length records\<rparr>"
    let ?st' = "empty_store\<lparr>rows := rows empty_store @ assign_ids (next_id empty_store) records,
                    next_id := next_id empty_store + int (length records)\<rparr>"
    have cc: "concat ?cs = records" using pos by (simp add: concat_split_chunks)
    have pcs: "process_chunks ?pc ?cs 1 zero_totals empty_store = (?tot', ?st')"
      using fresh_chunks [of empty_store ?cs table_name source_name 1 zero_totals]
        fresh_empty_store dk sc unfolding cc by simp
    have up: "upsert_records_with_composite_key mem_client table_name source_name records
                chunk_size empty_store =
              run_chunks ?pc table_name records 0 chunk_size zero_totals empty_store"
      using ne False
      by (simp add: upsert_records_with_composite_key_def upsert_with_def)
    have rc: "run_chunks ?pc table_name records 0 chunk_size zero_totals empty_store =
                (Inr (final_result table_name ?tot'), ?st')"
      unfolding run_chunks_positive [OF pos] pcs by simp
    have st: "?st' = stored records" by (simp add: empty_store_def stored_def)
    show ?thesis
      unfolding up rc st by (simp add: final_result_def zero_totals_def)
  next
    case True
    let ?sample = "take SAMPLE_SIZE records"
    let ?rest = "drop SAMPLE_SIZE records"
    let ?cs = "split_chunks (nat chunk_size) ?rest"
    let ?st1 = "empty_store\<lparr>rows := rows empty_store @ assign_ids (next_id empty_store) ?sample,
                  next_id := next_id empty_store + int SAMPLE_SIZE\<rparr>"
    let ?tot = "zero_totals\<lparr>total_inserted := SAMPLE_SIZE, total_updated := 0\<rparr>"
    let ?tot' = "?tot\<lparr>total_inserted := total_inserted ?tot + length ?rest\<rparr>"
    let ?st2 = "?st1\<lparr>rows := rows ?st1 @ assign_ids (next_id ?st1) ?rest,
                    next_id := next_id ?st1 + int (length ?rest)\<rparr>"
    have fr: "fresh_for empty_store (?sample @ ?rest)" by (rule fresh_empty_store)
    have dk': "distinct (map composite_key (?sample @ ?rest))" using dk by simp
    have sc1: "string_codes ?sample" and sc2: "string_codes ?rest"
      using sc string_codes_append [of ?sample ?rest] by simp_all
    have len: "length ?sample = SAMPLE_SIZE" using True by simp
    have sample: "?pc ?sample empty_store = (Inr (SAMPLE_SIZE, 0), ?st1)"
      using fresh_chunk [OF fr dk' sc1, of table_name source_name]
      unfolding len by (simp add: chunk_processor_def)
    have cc: "concat ?cs = ?rest" using pos by (simp add: concat_split_chunks)
    have fr1: "fresh_for ?st1 ?rest"
      using fresh_after_chunk [OF fr dk' sc1] unfolding len .
    have dk2: "distinct (map composite_key ?rest)"
      using dk distinct_drop [of "map composite_key records" SAMPLE_SIZE]
      by (simp add: drop_map)
    have pcs: "process_chunks ?pc ?cs 1 ?tot ?st1 = (?tot', ?st2)"
      using fresh_chunks [of ?st1 ?cs table_name source_name 1 ?tot] fr1 dk2 sc2
      unfolding cc by simp
    have nz: "SAMPLE_SIZE \<noteq> 0" by (simp add: SAMPLE_SIZE_def)
    have up: "upsert_records_with_composite_key mem_client table_name source_name records
                chunk_size empty_store =
              run_chunks ?pc table_name records SAMPLE_SIZE chunk_size ?tot ?st1"
      using ne True nz
      by (simp add: upsert_records_with_composite_key_def upsert_with_def sample)
    have rc: "run_chunks ?pc table_name records SAMPLE_SIZE chunk_size ?tot ?st1 =
                (Inr (final_result table_name ?tot'), ?st2)"
      unfolding run_chunks_positive [OF pos] pcs by simp
    have rows: "assign_ids 1 ?sample @ assign_ids (1 + int SAMPLE_SIZE) ?rest
                  = assign_ids 1 records"
      using assign_ids_append [of 1 ?sample ?rest] unfolding len by simp
    have total: "SAMPLE_SIZE + length ?rest = length records"
      using len [symmetric] by simp
    have st: "?st2 = stored records"
      using rows total by (simp add: empty_store_def stored_def del: length_drop)
    have ins: "records_inserted (final_result table_name ?tot') = length records"
      using total by (simp add: final_result_def zero_totals_def del: length_drop)
    show ?thesis
      unfolding up rc st using ins by (simp add: final_result_def zero_totals_def)
  qed
qed

lemma second_run:
  assumes pos: "0 < chunk_size"
    and dk: "distinct (map composite_key records)"
    and sc: "string_codes records"
  shows "\<exists>res. upsert_records_with_composite_key mem_client table_name source_name records
                 chunk_size (stored records) = (Inr res, stored records) \<and>
               records_inserted res = 0 \<and> records_failed res = 0 \<and>
               (records_updated res = length records \<or> status res = AlreadySynced)"
proof (cases "records = []")
  case True
  then show ?thesis
    by (simp add: upsert_records_with_composite_key_def upsert_with_def no_records_result_def)
next
  case ne: False
  let ?pc = "chunk_processor mem_client table_name source_name"
  let ?st = "stored records"
  have sy: "synced_with ?st records" by (rule synced_stored [OF dk sc])
  then have clean: "faults ?st = []" by (simp add: synced_with_def)
  show ?thesis
  proof (cases "SAMPLE_SIZE < length records")
    case False
    let ?cs = "split_chunks (nat chunk_size) (drop 0 records)"
    let ?tot' = "zero_totals\<lparr>total_updated := total_updated zero_totals + length records\<rparr>"
    have cc: "concat ?cs = records" using pos by (simp add: concat_split_chunks)
    have pcs: "process_chunks ?pc ?cs 1 zero_totals ?st = (?tot', ?st)"
      using synced_chunks [OF sy, of ?cs table_name source_name 1 zero_totals]
      unfolding cc by simp
    have up: "upsert_records_with_composite_key mem_client table_name source_name records
                chunk_size ?st =
              run_chunks ?pc table_name records 0 chunk_size zero_totals ?st"
      using ne False
      by (simp add: upsert_records_with_composite_key_def upsert_with_def)
    have rc: "run_chunks ?pc table_name records 0 chunk_size zero_totals ?st =
                (Inr (final_result table_name ?tot'), ?st)"
      unfolding run_chunks_positive [OF pos] pcs by simp
    show ?thesis
      unfolding up rc by (simp add: final_result_def zero_totals_def)
  next
    case True
    let ?sample = "take SAMPLE_SIZE records"
    let ?rest = "drop SAMPLE_SIZE records"
    let ?cs = "split_chunks (nat chunk_size) ?rest"
    let ?tot = "zero_totals\<lparr>total_inserted := 0, total_updated := SAMPLE_SIZE\<rparr>"
    let ?tot' = "?tot\<lparr>total_updated := total_updated ?tot + length ?rest\<rparr>"
    let ?chk = "check_all_records_exist mem_client table_name source_name records ?st"
    have s1: "set ?sample \<subseteq> set records" by (rule set_take_subset)
    have s2: "set ?rest \<subseteq> set records" by (rule set_drop_subset)
    have len: "length ?sample = SAMPLE_SIZE" using True by simp
    have sample: "?pc ?sample ?st = (Inr (0, SAMPLE_SIZE), ?st)"
      using synced_chunk [OF sy s1, of table_name source_name]
      unfolding len by (simp add: chunk_processor_def)
    have cc: "concat ?cs = ?rest" using pos by (simp add: concat_split_chunks)
    have pcs: "process_chunks ?pc ?cs 1 ?tot ?st = (?tot', ?st)"
      using synced_chunks [OF sy, of ?cs table_name source_name 1 ?tot] s2
      unfolding cc by simp
    have chk: "?chk = (fst ?chk, ?st)"
      using clean_check_all [OF clean, of table_name source_name records]
      by (metis prod.collapse)
    have nz: "0 < SAMPLE_SIZE" by (simp add: SAMPLE_SIZE_def)
    have total: "SAMPLE_SIZE + length ?rest = length records"
      using len [symmetric] by simp
    have rc: "run_chunks ?pc table_name records SAMPLE_SIZE chunk_size ?tot ?st =
                (Inr (final_result table_name ?tot'), ?st)"
      unfolding run_chunks_positive [OF pos] pcs by simp
    have upd: "records_updated (final_result table_name ?tot') = length records"
      using total by (simp add: final_result_def zero_totals_def del: length_drop)
    show ?thesis
    proof (cases "fst ?chk")
      case early: True
      with chk have chk': "?chk = (True, ?st)" by simp
      have up: "upsert_records_with_composite_key mem_client table_name source_name records
                  chunk_size ?st = (Inr (already_synced_result table_name SAMPLE_SIZE), ?st)"
        using ne True nz
        by (simp add: upsert_records_with_composite_key_def upsert_with_def sample chk')
      show ?thesis
        unfolding up by (simp add: already_synced_result_def)
    next
      case False
      with chk have chk': "?chk = (False, ?st)" by simp
      have up: "upsert_records_with_composite_key mem_client table_name source_name records
                  chunk_size ?st =
                run_chunks ?pc table_name records SAMPLE_SIZE chunk_size ?tot ?st"
        using ne True nz
        by (simp add: upsert_records_with_composite_key_def upsert_with_def sample chk')
      show ?thesis
        unfolding up rc using upd by (simp add: final_result_def zero_totals_def)
    qed
  qed
qed

text \<open>
  C1.  Idempotence of reconciliation, on the in-memory store without failures from
  outside, for a positive chunk size and every list of records with distinct composite
  keys (what the deduplicator returns) and string codes (what the data model says a code
  is).  The first run, against the empty store, inserts every record.  The second run,
  with the same records against the store the first run has left, reports no insert and
  no failure, and either \<open>records_updated = len(records)\<close> or the status
  \<^verbatim>\<open>already_synced\<close>; it leaves the rows of the store as they were, so that the row
  count does not change.
\<close>

theorem reconcile_idempotent:
  assumes pos: "0 < chunk_size"
    and dk: "distinct (map composite_key records)"
    and sc: "string_codes records"
    and first: "upsert_records_with_composite_key mem_client table_name source_name records
                  chunk_size empty_store = (out1, st1)"
    and second: "upsert_records_with_composite_key mem_client table_name source_name records
                   chunk_size st1 = (out2, st2)"
  shows "\<exists>res1 res2.
           out1 = Inr res1 \<and> out2 = Inr res2 \<and>
           records_inserted res1 = length records \<and> length (rows st1) = length records \<and>
           records_inserted res2 = 0 \<and> records_failed res2 = 0 \<and>
           (records_updated res2 = length records \<or> status res2 = AlreadySynced) \<and>
           rows st2 = rows st1 \<and> length (rows st2) = length (rows st1)"
proof -
  from first_run [OF pos dk sc, of table_name source_name] first
  obtain res1 where 1: "out1 = Inr res1" "st1 = stored records"
    "records_inserted res1 = length records" by auto
  from second_run [OF pos dk sc, of table_name source_name] second 1(2)
  obtain res2 where 2: "out2 = Inr res2" "st2 = stored records"
    "records_inserted res2 = 0" "records_failed res2 = 0"
    "records_updated res2 = length records \<or> status res2 = AlreadySynced" by auto
  have "length (rows st1) = length records" using 1(2) by (simp add: stored_def)
  with 1 2 show ?thesis by auto
qed

text \<open>
  Two records of two releases, in one chunk: the first run inserts both; in the second
  run the existence check, made for the first record's release, finds only the first
  record, the second is refused by the uniqueness constraint and counted as an update.
\<close>

theorem reconcile_idempotent_witness:
  "\<exists>res1 res2.
     fst (upsert_records_with_composite_key mem_client ''benchmarks'' ''X'' [rec_b, rec_c] 1000
            empty_store) = Inr res1 \<and>
     fst (upsert_records_with_composite_key mem_client ''benchmarks'' ''X'' [rec_b, rec_c] 1000
            (snd (upsert_records_with_composite_key mem_client ''benchmarks'' ''X''
                    [rec_b, rec_c] 1000 empty_store))) = Inr res2 \<and>
     records_inserted res1 = 2 \<and> records_inserted res2 = 0 \<and>
     (records_updated res2 = 2 \<or> status res2 = AlreadySynced) \<and>
     length (rows (snd (upsert_records_with_composite_key mem_client ''benchmarks'' ''X''
                    [rec_b, rec_c] 1000 empty_store))) = 2"
proof -
  let ?run1 = "upsert_records_with_composite_key mem_client ''benchmarks'' ''X'' [rec_b, rec_c]
                 1000 empty_store"
  let ?run2 = "upsert_records_with_composite_key mem_client ''benchmarks'' ''X'' [rec_b, rec_c]
                 1000 (snd ?run1)"
  have pos: "(0::int) < 1000" by simp
  have dk: "distinct (map composite_key [rec_b, rec_c])" by simp
  have sc: "string_codes [rec_b, rec_c]" by (simp add: string_codes_def)
  have first: "?run1 = (fst ?run1, snd ?run1)" by simp
  have second: "?run2 = (fst ?run2, snd ?run2)" by simp
  from reconcile_idempotent [OF pos dk sc first second] show ?thesis by auto
qed

end
